theory Spec2Isabelle
  imports Main "HOL-Library.Word"
begin

unbundle bit_operations_syntax

section \<open>The 320x240 framebuffer sketch (mega\_edo\_fb8\_320x240\_fix.ino)\<close>

subsection \<open>Configuration constants\<close>

text \<open>
  The sketch targets the ATmega2560: \<open>int\<close> and \<open>unsigned int\<close> are 16 bits wide,
  \<open>uint16_t\<close> is \<open>16 word\<close>, \<open>uint8_t\<close> is \<open>8 word\<close>, \<open>uint32_t\<close> is \<open>32 word\<close>.
  The \<open>#define\<close>s and \<open>const\<close>s keep their names.
\<close>

definition V_VISIBLE :: "16 word" where "V_VISIBLE = 240"
definition V_FRONT_PORCH :: "16 word" where "V_FRONT_PORCH = 2"
definition V_SYNC_PULSE :: "16 word" where "V_SYNC_PULSE = 2"
definition V_BACK_PORCH :: "16 word" where "V_BACK_PORCH = 21"
definition V_TOTAL :: "16 word" where
  "V_TOTAL = V_VISIBLE + V_FRONT_PORCH + V_SYNC_PULSE + V_BACK_PORCH"

definition H_VISIBLE :: "16 word" where "H_VISIBLE = 320"

definition FRAMEBUFFER_WIDTH :: "16 word" where "FRAMEBUFFER_WIDTH = H_VISIBLE"
definition FRAMEBUFFER_HEIGHT :: "16 word" where "FRAMEBUFFER_HEIGHT = V_VISIBLE"
definition DRAM_ROWS :: "16 word" where "DRAM_ROWS = 512"
definition DRAM_COLS :: "16 word" where "DRAM_COLS = 512"

definition MAX_UPDATE_BUFFER_SIZE :: "16 word" where "MAX_UPDATE_BUFFER_SIZE = 512"

subsection \<open>The hardware: port registers and the DRAM behind them\<close>

text \<open>
  The sketch drives the MSM514262 through the port registers of the controller. The
  registers are \<open>PORTA\<close> (\<open>DATA_PORT_OUT\<close>) with its direction register
  \<open>DATA_PORT_DDR\<close>, and \<open>PORTC\<close>, \<open>PORTD\<close>, \<open>PORTL\<close>, which carry the address bits
  and the strobes. The level of a line is taken to be the bit of the port register
  that the sketch writes for it. Behind the pins is the chip: its row and column
  latches and its array of 4-bit cells, 512 rows by 512 columns (nine address lines,
  four data lines). The 256x256 sketch uses the same registers and the same strobe
  bits, so this part is shared.
\<close>

type_synonym dram_array = "9 word \<times> 9 word \<Rightarrow> 4 word"

record avr_hw =
  PORTA :: "8 word"
  DATA_PORT_DDR :: "8 word"
  PORTC :: "8 word"
  PORTD :: "8 word"
  PORTL :: "8 word"
  latched_row :: "9 word"
  latched_col :: "9 word"
  dram_cells :: dram_array

text \<open>The bit numbers of the strobes: RAS and CAS in \<open>PORTL\<close>; WE, OE and SE in \<open>PORTC\<close>.\<close>

definition RAS_BIT :: nat where "RAS_BIT = 3"
definition CAS_BIT :: nat where "CAS_BIT = 4"
definition WE_BIT :: nat where "WE_BIT = 7"
definition OE_BIT :: nat where "OE_BIT = 6"
definition SE_BIT :: nat where "SE_BIT = 4"

text \<open>The levels of the three strobes the array reacts to; true is high, that is inactive.\<close>

definition RAS :: "avr_hw \<Rightarrow> bool" where "RAS h \<longleftrightarrow> bit (PORTL h) RAS_BIT"
definition CAS :: "avr_hw \<Rightarrow> bool" where "CAS h \<longleftrightarrow> bit (PORTL h) CAS_BIT"
definition WE :: "avr_hw \<Rightarrow> bool" where "WE h \<longleftrightarrow> bit (PORTC h) WE_BIT"

text \<open>
  The data lines DQ0 to DQ3 are the pins PA0 to PA3, driven where the direction bit is
  set; a line that is not driven is taken to be low.
\<close>

definition data_pins :: "avr_hw \<Rightarrow> 4 word" where
  "data_pins h = ucast (PORTA h AND DATA_PORT_DDR h)"

text \<open>
  The chip, with the same cycles as in the pin-by-pin sketch further down: the falling
  edge of RAS latches the row address from the address lines; the falling edge of CAS,
  with RAS low, latches the column address; a write happens when CAS goes low with RAS
  and WE low, or WE goes low with RAS and CAS low, and stores the levels of the data
  lines in the addressed cell. \<open>chip_react\<close> is the reaction to one port write: its
  arguments are the levels of the address lines after the write, the levels of RAS,
  CAS and WE before it, and the registers after it.
\<close>

definition chip_react :: "9 word \<Rightarrow> bool \<Rightarrow> bool \<Rightarrow> bool \<Rightarrow> avr_hw \<Rightarrow> avr_hw" where
  "chip_react address ras0 cas0 we0 h =
     (let h1 = (if ras0 \<and> \<not> RAS h then h\<lparr>latched_row := address\<rparr> else h);
          h2 = (if cas0 \<and> \<not> CAS h \<and> \<not> RAS h then h1\<lparr>latched_col := address\<rparr> else h1)
      in if \<not> RAS h \<and> \<not> CAS h \<and> \<not> WE h \<and> (cas0 \<or> we0)
         then h2\<lparr>dram_cells :=
                  (dram_cells h2)((latched_row h2, latched_col h2) := data_pins h)\<rparr>
         else h2)"

subsection \<open>State of the 320x240 sketch\<close>

text \<open>
  \<open>struct PixelUpdate\<close>; the fields \<open>x\<close>, \<open>y\<close>, \<open>color\<close> carry the prefix \<open>upd_\<close>
  so that \<open>x\<close> and \<open>y\<close> stay usable as variables.
\<close>

record PixelUpdate =
  upd_x :: "16 word"
  upd_y :: "16 word"
  upd_color :: "8 word"

text \<open>
  The \<open>volatile\<close> globals of the sketch, the hardware \<open>hw\<close>, the number of
  CAS-before-RAS refresh cycles issued so far, the row last loaded into the serial
  access memory (SAM), and the clock select register \<open>TCCR3B\<close> of the pixel clock
  timer.
\<close>

record vga =
  update_buffer :: "PixelUpdate list"
  update_buffer_write_index :: "16 word"
  update_buffer_read_index :: "16 word"
  buffer_overflow :: bool
  current_scanline :: "16 word"
  current_video_line :: "16 word"
  vblank_active :: bool
  frame_count :: "32 word"
  timing_error :: bool
  hw :: avr_hw
  cbr_cycles :: nat
  sam_row :: "9 word"
  TCCR3B :: "8 word"

text \<open>The DRAM array of a state, and the level of the SAM enable pin (active low).\<close>

definition dram :: "vga \<Rightarrow> dram_array" where
  "dram s = dram_cells (hw s)"

definition SE :: "vga \<Rightarrow> bool" where
  "SE s \<longleftrightarrow> bit (PORTC (hw s)) SE_BIT"

subsection \<open>Memory cycles\<close>

text \<open>
  The address lines as \<open>setDRAMAddress\<close> assigns them: A0 and A1 are bits 0 and 1 of
  \<open>PORTD\<close>, A2 to A5 are bits 2 to 5 of \<open>PORTL\<close>, A6 to A8 are bits 4 to 6 of \<open>PORTC\<close>.
  Bits 3 and 4 of \<open>PORTL\<close> are also RAS and CAS, and bits 4 and 6 of \<open>PORTC\<close> are also
  SE and OE: the sketch defines them so.
\<close>

definition address_lines :: "avr_hw \<Rightarrow> 9 word" where
  "address_lines h =
     ucast (PORTD h AND 0x03) OR
     push_bit 2 (ucast (drop_bit 2 (PORTL h) AND 0x0F)) OR
     push_bit 6 (ucast (drop_bit 4 (PORTC h) AND 0x07))"

text \<open>
  A write to \<open>PORTL\<close> or \<open>PORTC\<close> can move a strobe, so the chip reacts to it; a write
  to \<open>PORTD\<close> or \<open>PORTA\<close> moves no strobe.
\<close>

definition out_PORTL :: "8 word \<Rightarrow> avr_hw \<Rightarrow> avr_hw" where
  "out_PORTL v h =
     chip_react (address_lines (h\<lparr>PORTL := v\<rparr>)) (RAS h) (CAS h) (WE h) (h\<lparr>PORTL := v\<rparr>)"

definition out_PORTC :: "8 word \<Rightarrow> avr_hw \<Rightarrow> avr_hw" where
  "out_PORTC v h =
     chip_react (address_lines (h\<lparr>PORTC := v\<rparr>)) (RAS h) (CAS h) (WE h) (h\<lparr>PORTC := v\<rparr>)"

text \<open>
  \<open>setDRAMAddress(row, col)\<close>: three read-modify-write statements, each computed in
  16 bits and truncated to the 8-bit register. Only \<open>col & 0x03\<close>,
  \<open>(col >> 2) & 0x0F\<close> and \<open>row & 0x07\<close> reach the ports.
\<close>

definition setDRAMAddress :: "16 word \<Rightarrow> 16 word \<Rightarrow> avr_hw \<Rightarrow> avr_hw" where
  "setDRAMAddress row col h =
     (let h = h\<lparr>PORTD := ucast ((ucast (PORTD h) AND 0xFC) OR (col AND 0x03))\<rparr>;
          h = out_PORTL (ucast ((ucast (PORTL h) AND 0xC3) OR
                                push_bit 2 (drop_bit 2 col AND 0x0F))) h;
          h = out_PORTC (ucast ((ucast (PORTC h) AND 0x8F) OR push_bit 4 (row AND 0x07))) h
      in h)"

text \<open>
  \<open>writeDRAM(row, col, color)\<close>: the direction register, the address, and the
  instructions of the \<open>asm\<close> block in their order: \<open>cbi\<close> RAS, \<open>cbi\<close> CAS, \<open>cbi\<close> WE,
  \<open>out\<close> of the colour to the data port, \<open>sbi\<close> WE, \<open>sbi\<close> CAS, \<open>sbi\<close> RAS. The
  \<open>nop\<close>s change nothing and are left out.
\<close>

definition writeDRAM :: "16 word \<Rightarrow> 16 word \<Rightarrow> 8 word \<Rightarrow> avr_hw \<Rightarrow> avr_hw" where
  "writeDRAM row col color h =
     (let h = h\<lparr>DATA_PORT_DDR := 0x0F\<rparr>;
          h = setDRAMAddress row col h;
          h = out_PORTL (unset_bit RAS_BIT (PORTL h)) h;
          h = out_PORTL (unset_bit CAS_BIT (PORTL h)) h;
          h = out_PORTC (unset_bit WE_BIT (PORTC h)) h;
          h = h\<lparr>PORTA := color\<rparr>;
          h = out_PORTC (set_bit WE_BIT (PORTC h)) h;
          h = out_PORTL (set_bit CAS_BIT (PORTL h)) h;
          h = out_PORTL (set_bit RAS_BIT (PORTL h)) h
      in h)"

text \<open>
  \<open>transferRowToSAM(row)\<close>: the direction register, \<open>setDRAMAddress(row, 0)\<close>, then
  \<open>cbi\<close> RAS, \<open>cbi\<close> OE, \<open>sbi\<close> OE, \<open>sbi\<close> RAS. The row the chip has latched is
  taken to be the one loaded into the serial access memory.
\<close>

definition transferRowToSAM :: "16 word \<Rightarrow> vga \<Rightarrow> vga" where
  "transferRowToSAM row s =
     (let h = (hw s)\<lparr>DATA_PORT_DDR := 0x00\<rparr>;
          h = setDRAMAddress row 0 h;
          h = out_PORTL (unset_bit RAS_BIT (PORTL h)) h;
          h = out_PORTC (unset_bit OE_BIT (PORTC h)) h;
          h = out_PORTC (set_bit OE_BIT (PORTC h)) h;
          h = out_PORTL (set_bit RAS_BIT (PORTL h)) h
      in s\<lparr>hw := h, sam_row := latched_row h\<rparr>)"

text \<open>
  \<open>refreshDRAM()\<close>: a \<open>for\<close> loop over \<open>i = 0 .. DRAM_ROWS - 1\<close>, one
  CAS-before-RAS refresh cycle per iteration: \<open>cbi\<close> CAS, \<open>cbi\<close> RAS, \<open>sbi\<close> RAS,
  \<open>sbi\<close> CAS. The chip answers such a cycle with a refresh of one row: the cycle is
  counted, and neither the latches nor the cells change. The loop is the recursion on
  the number of iterations left.
\<close>

definition cbr_refresh_cycle :: "vga \<Rightarrow> vga" where
  "cbr_refresh_cycle s =
     (let h = hw s;
          h = h\<lparr>PORTL := unset_bit CAS_BIT (PORTL h)\<rparr>;
          h = h\<lparr>PORTL := unset_bit RAS_BIT (PORTL h)\<rparr>;
          h = h\<lparr>PORTL := set_bit RAS_BIT (PORTL h)\<rparr>;
          h = h\<lparr>PORTL := set_bit CAS_BIT (PORTL h)\<rparr>
      in s\<lparr>hw := h, cbr_cycles := Suc (cbr_cycles s)\<rparr>)"

fun refresh_loop :: "nat \<Rightarrow> vga \<Rightarrow> vga" where
  "refresh_loop 0 s = s"
| "refresh_loop (Suc n) s = refresh_loop n (cbr_refresh_cycle s)"

definition refreshDRAM :: "vga \<Rightarrow> vga" where
  "refreshDRAM s = refresh_loop (unat DRAM_ROWS) s"

subsection \<open>The update ring\<close>

text \<open>
  \<open>drawPixel(x, y, color)\<close>: the bounds check, the full check on the next write slot,
  and the store. \<open>update_buffer_write_index + 1\<close> is computed in \<open>unsigned int\<close>
  (16 bits). The store runs between \<open>noInterrupts()\<close> and \<open>interrupts()\<close>; the model
  runs each function to its end. The result pairs the returned \<open>bool\<close> with the new
  state.
\<close>

definition drawPixel :: "16 word \<Rightarrow> 16 word \<Rightarrow> 8 word \<Rightarrow> vga \<Rightarrow> bool \<times> vga" where
  "drawPixel x y c s =
     (if x \<ge> FRAMEBUFFER_WIDTH \<or> y \<ge> FRAMEBUFFER_HEIGHT then (False, s)
      else
        let next_index = (update_buffer_write_index s + 1) mod MAX_UPDATE_BUFFER_SIZE in
        if next_index = update_buffer_read_index s
        then (False, s\<lparr>buffer_overflow := True\<rparr>)
        else (True,
              s\<lparr>update_buffer :=
                   (update_buffer s)[unat (update_buffer_write_index s) :=
                      \<lparr>upd_x = x, upd_y = y, upd_color = c\<rparr>],
                update_buffer_write_index := next_index\<rparr>))"

text \<open>
  The address computation of \<open>applyBufferUpdates\<close>: \<open>pixel_index\<close> is a \<open>uint32_t\<close>
  (the cast of \<open>y\<close> makes the product and the sum 32-bit), \<open>dram_row\<close> and
  \<open>dram_col\<close> are the quotient and the remainder truncated to \<open>uint16_t\<close>.
\<close>

definition pixel_index :: "16 word \<Rightarrow> 16 word \<Rightarrow> 32 word" where
  "pixel_index x y = (ucast y :: 32 word) * ucast FRAMEBUFFER_WIDTH + ucast x"

definition dram_row :: "16 word \<Rightarrow> 16 word \<Rightarrow> 16 word" where
  "dram_row x y = ucast (pixel_index x y div ucast DRAM_COLS)"

definition dram_col :: "16 word \<Rightarrow> 16 word \<Rightarrow> 16 word" where
  "dram_col x y = ucast (pixel_index x y mod ucast DRAM_COLS)"

text \<open>
  The body of the \<open>while\<close> loop of \<open>applyBufferUpdates\<close>: the write cycle for one
  entry, \<open>write_update\<close>, and the advance of the read index.
\<close>

definition write_update :: "PixelUpdate \<Rightarrow> vga \<Rightarrow> vga" where
  "write_update update s =
     s\<lparr>hw := writeDRAM (dram_row (upd_x update) (upd_y update))
                     (dram_col (upd_x update) (upd_y update)) (upd_color update) (hw s)\<rparr>"

definition apply_update :: "vga \<Rightarrow> vga" where
  "apply_update s =
     (write_update (update_buffer s ! unat (update_buffer_read_index s)) s)
       \<lparr>update_buffer_read_index :=
          (update_buffer_read_index s + 1) mod MAX_UPDATE_BUFFER_SIZE\<rparr>"

text \<open>
  \<open>applyBufferUpdates()\<close>: the loop runs while the two indices differ. Nothing in the
  loop bounds the number of iterations, so not returning is the value \<open>None\<close>.
\<close>

partial_function (option) applyBufferUpdates :: "vga \<Rightarrow> vga option" where
  "applyBufferUpdates s =
     (if update_buffer_read_index s \<noteq> update_buffer_write_index s
      then applyBufferUpdates (apply_update s)
      else Some s)"

subsection \<open>The interrupt handlers\<close>

text \<open>
  The condition of the \<open>if\<close> in \<open>ISR(TIMER1_COMPA_vect)\<close>, on the value of
  \<open>current_scanline\<close> after its increment. The comparison is unsigned.
\<close>

definition active_line :: "16 word \<Rightarrow> bool" where
  "active_line line \<longleftrightarrow>
     line \<ge> V_FRONT_PORCH + V_SYNC_PULSE + V_BACK_PORCH \<and> line < V_TOTAL - V_FRONT_PORCH"

text \<open>
  \<open>ISR(TIMER1_COMPA_vect)\<close>, once per line. The timer registers \<open>TCNT1\<close> and \<open>ICR1\<close>
  are read from the hardware and are arguments here; the reset \<open>TCNT1 = 0\<close> acts on
  the timer only and is left out; \<open>_BV(CS30)\<close> is 1. \<open>CLEAR_BIT(SE_PORT, SE_BIT)\<close> and
  \<open>SET_BIT(SE_PORT, SE_BIT)\<close> are writes to \<open>PORTC\<close>.
\<close>

definition hsync_isr :: "16 word \<Rightarrow> 16 word \<Rightarrow> vga \<Rightarrow> vga" where
  "hsync_isr TCNT1 ICR1 s =
     (let s1 = s\<lparr>current_scanline := current_scanline s + 1\<rparr>;
          s2 = (if TCNT1 > drop_bit 1 ICR1 then s1\<lparr>timing_error := True\<rparr> else s1)
      in if active_line (current_scanline s2)
         then (let s3 = transferRowToSAM (current_video_line s2) s2
               in s3\<lparr>current_video_line := current_video_line s3 + 1,
                     hw := out_PORTC (unset_bit SE_BIT (PORTC (hw s3))) (hw s3),
                     TCCR3B := 1\<rparr>)
         else s2\<lparr>hw := out_PORTC (set_bit SE_BIT (PORTC (hw s2))) (hw s2), TCCR3B := 0\<rparr>)"

text \<open>
  \<open>ISR(TIMER5_COMPA_vect)\<close>, once per frame: the drain, then the refresh under its
  guard on the frame counter, then the reset of the line counters.
\<close>

definition vsync_isr :: "vga \<Rightarrow> vga option" where
  "vsync_isr s =
     (case applyBufferUpdates (s\<lparr>frame_count := frame_count s + 1, vblank_active := True\<rparr>) of
        None \<Rightarrow> None
      | Some s1 \<Rightarrow>
          let s2 = (if frame_count s1 AND 0x3F = 0 then refreshDRAM s1 else s1)
          in Some (s2\<lparr>current_scanline := 0, current_video_line := 0, vblank_active := False\<rparr>))"

subsection \<open>Notions used to state the properties of the ring\<close>

text \<open>
  The ring is well formed when the array has its declared size and both indices are
  inside it. The C code reads and writes \<open>update_buffer\<close> outside the array otherwise.
\<close>

definition ring_inv :: "vga \<Rightarrow> bool" where
  "ring_inv s \<longleftrightarrow>
     length (update_buffer s) = unat MAX_UPDATE_BUFFER_SIZE \<and>
     update_buffer_write_index s < MAX_UPDATE_BUFFER_SIZE \<and>
     update_buffer_read_index s < MAX_UPDATE_BUFFER_SIZE"

text \<open>The number of unread entries, computed as the C expression would.\<close>

definition occupancy :: "vga \<Rightarrow> nat" where
  "occupancy s =
     unat ((update_buffer_write_index s - update_buffer_read_index s)
             mod MAX_UPDATE_BUFFER_SIZE)"

text \<open>The unread entries, oldest first: the slots from the read index up to the write index.\<close>

definition pending :: "vga \<Rightarrow> PixelUpdate list" where
  "pending s =
     map (\<lambda>i. update_buffer s !
                 ((unat (update_buffer_read_index s) + i) mod unat MAX_UPDATE_BUFFER_SIZE))
         [0 ..< occupancy s]"

text \<open>
  A sequence of \<open>drawPixel\<close> calls by the application, one per list element, with the
  list of the values returned.
\<close>

fun drawPixels :: "PixelUpdate list \<Rightarrow> vga \<Rightarrow> bool list \<times> vga" where
  "drawPixels [] s = ([], s)"
| "drawPixels (u # us) s =
     (let r = drawPixel (upd_x u) (upd_y u) (upd_color u) s;
          rs = drawPixels us (snd r)
      in (fst r # fst rs, snd rs))"

definition in_bounds :: "PixelUpdate \<Rightarrow> bool" where
  "in_bounds u \<longleftrightarrow> upd_x u < FRAMEBUFFER_WIDTH \<and> upd_y u < FRAMEBUFFER_HEIGHT"

text \<open>The colour of the last element of a sequence of updates that names the pixel (x, y).\<close>

fun last_color :: "PixelUpdate list \<Rightarrow> 16 word \<Rightarrow> 16 word \<Rightarrow> 8 word option" where
  "last_color [] x y = None"
| "last_color (u # us) x y =
     (case last_color us x y of
        Some c \<Rightarrow> Some c
      | None \<Rightarrow> if upd_x u = x \<and> upd_y u = y then Some (upd_color u) else None)"

text \<open>
  The hardware as \<open>setupPorts()\<close> leaves it on a blank chip: the five strobes high, the
  data port an output.
\<close>

definition hw_after_setup :: avr_hw where
  "hw_after_setup =
     \<lparr>PORTA = 0, DATA_PORT_DDR = 0x0F, PORTC = 0xD0, PORTD = 0, PORTL = 0x18,
      latched_row = 0, latched_col = 0, dram_cells = (\<lambda>cell. 0)\<rparr>"

text \<open>The globals as their initialisers leave them (the array is zero-initialised).\<close>

definition power_on :: vga where
  "power_on =
     \<lparr>update_buffer = replicate 512 \<lparr>upd_x = 0, upd_y = 0, upd_color = 0\<rparr>,
      update_buffer_write_index = 0,
      update_buffer_read_index = 0,
      buffer_overflow = False,
      current_scanline = 0,
      current_video_line = 0,
      vblank_active = False,
      frame_count = 0,
      timing_error = False,
      hw = hw_after_setup,
      cbr_cycles = 0,
      sam_row = 0,
      TCCR3B = 0\<rparr>"

text \<open>
  The states the sketch can reach: from any state whose ring is as the initialisers
  leave it, by calls of \<open>drawPixel\<close> and by the two interrupt handlers.
\<close>

inductive reachable :: "vga \<Rightarrow> bool" where
  start: "update_buffer s = update_buffer power_on \<Longrightarrow> update_buffer_write_index s = 0 \<Longrightarrow>
          update_buffer_read_index s = 0 \<Longrightarrow> reachable s"
| draw: "reachable s \<Longrightarrow> reachable (snd (drawPixel x y c s))"
| drain: "reachable s \<Longrightarrow> applyBufferUpdates s = Some s1 \<Longrightarrow> reachable s1"
| line: "reachable s \<Longrightarrow> reachable (hsync_isr TCNT1 ICR1 s)"
| frame: "reachable s \<Longrightarrow> vsync_isr s = Some s1 \<Longrightarrow> reachable s1"

text \<open>
  Two updates of two different pixels of the first framebuffer row, 64 columns apart.
\<close>

definition aliased_updates :: "PixelUpdate list" where
  "aliased_updates =
     [\<lparr>upd_x = 0, upd_y = 0, upd_color = 1\<rparr>,
      \<lparr>upd_x = 64, upd_y = 0, upd_color = 2\<rparr>]"

text \<open>
  A burst of 517 updates (\<open>MAX_UPDATE_BUFFER_SIZE + 5\<close>) of distinct pixels, filling
  the first framebuffer row and part of the second.
\<close>

definition burst :: "PixelUpdate list" where
  "burst = map (\<lambda>i. \<lparr>upd_x = of_nat (i mod 320), upd_y = of_nat (i div 320), upd_color = 1\<rparr>)
               [0 ..< 517]"

section \<open>The 256x256 framebuffer sketch (mega\_edo\_fp6.ino)\<close>

text \<open>
  The file holds two versions of the sketch; the frame handler, the refresh and the
  address computation are the same in both, and the second version, the last in the
  file, is the one modelled where they differ: its \<open>setAddress\<close>, its \<open>writeDram\<close>, its
  drain, and the condition of its line handler. Names shared with the 320x240 sketch
  carry the suffix \<open>_fp6\<close>.

  The sketch computes with \<open>int\<close>, which is 16 bits wide on the ATmega2560. An \<open>int\<close>
  is modelled as a HOL \<open>int\<close>, an \<open>unsigned int\<close> as a \<open>16 word\<close>, and the conversion
  of an \<open>int\<close> expression to \<open>unsigned int\<close> as \<open>word_of_int\<close>, which reduces modulo
  \<open>2 ^ 16\<close> as the two's complement machine does.
\<close>

definition FRAMEBUFFER_WIDTH_fp6 :: int where "FRAMEBUFFER_WIDTH_fp6 = 256"
definition FRAMEBUFFER_HEIGHT_fp6 :: int where "FRAMEBUFFER_HEIGHT_fp6 = 256"
definition DRAM_ROWS_fp6 :: int where "DRAM_ROWS_fp6 = 512"
definition DRAM_COLS_fp6 :: int where "DRAM_COLS_fp6 = 512"
definition MAX_UPDATE_BUFFER_SIZE_fp6 :: int where "MAX_UPDATE_BUFFER_SIZE_fp6 = 1024"

record PixelUpdate_fp6 =
  x_fp6 :: int
  y_fp6 :: int
  color_fp6 :: "8 word"

record fp6 =
  update_buffer_fp6 :: "PixelUpdate_fp6 list"
  update_buffer_index :: int
  vBlank_in_progress :: bool
  currentScanline :: int
  currentRow :: int
  hw_fp6 :: avr_hw
  cbr_cycles_fp6 :: nat

definition dram_fp6 :: "fp6 \<Rightarrow> dram_array" where
  "dram_fp6 s = dram_cells (hw_fp6 s)"

text \<open>
  The address lines as the operands of \<open>setAddress\<close> name them: \<open>addr01\<close> goes to
  \<open>PORTD\<close>, \<open>addr23\<close> to \<open>PORTL\<close>, \<open>addr67\<close> to \<open>PORTC\<close> and \<open>addr8\<close> to \<open>PORTL\<close> again,
  each in the low bits of the register. The sketch drives no pin for A4 and A5; they
  are taken to be low.
\<close>

definition address_lines_fp6 :: "avr_hw \<Rightarrow> 9 word" where
  "address_lines_fp6 h =
     ucast (PORTD h AND 0x03) OR
     push_bit 2 (ucast (PORTL h AND 0x03)) OR
     push_bit 6 (ucast (PORTC h AND 0x03)) OR
     push_bit 8 (ucast (PORTL h AND 0x01))"

definition out_PORTL_fp6 :: "8 word \<Rightarrow> avr_hw \<Rightarrow> avr_hw" where
  "out_PORTL_fp6 v h =
     chip_react (address_lines_fp6 (h\<lparr>PORTL := v\<rparr>)) (RAS h) (CAS h) (WE h) (h\<lparr>PORTL := v\<rparr>)"

definition out_PORTC_fp6 :: "8 word \<Rightarrow> avr_hw \<Rightarrow> avr_hw" where
  "out_PORTC_fp6 v h =
     chip_react (address_lines_fp6 (h\<lparr>PORTC := v\<rparr>)) (RAS h) (CAS h) (WE h) (h\<lparr>PORTC := v\<rparr>)"

text \<open>
  \<open>setAddress(row, col)\<close>: four \<open>out\<close> instructions, each writing a whole register
  with the low byte of its operand: \<open>col & 0x03\<close>, \<open>(col >> 2) & 0x03\<close>,
  \<open>(row >> 6) & 0x03\<close>, \<open>(row >> 8) & 0x01\<close>.
\<close>

definition setAddress_fp6 :: "16 word \<Rightarrow> 16 word \<Rightarrow> avr_hw \<Rightarrow> avr_hw" where
  "setAddress_fp6 row col h =
     (let h = h\<lparr>PORTD := ucast (col AND 0x03)\<rparr>;
          h = out_PORTL_fp6 (ucast (drop_bit 2 col AND 0x03)) h;
          h = out_PORTC_fp6 (ucast (drop_bit 6 row AND 0x03)) h;
          h = out_PORTL_fp6 (ucast (drop_bit 8 row AND 0x01)) h
      in h)"

text \<open>
  \<open>writeDram(row, col, color)\<close>: the direction register, \<open>setAddress(row, col)\<close>, then
  \<open>cbi\<close> RAS, \<open>cbi\<close> CAS, \<open>cbi\<close> WE, \<open>out\<close> of the colour to the data port, \<open>sbi\<close> CAS,
  \<open>sbi\<close> WE, \<open>sbi\<close> RAS.
\<close>

definition writeDram_fp6 :: "16 word \<Rightarrow> 16 word \<Rightarrow> 8 word \<Rightarrow> avr_hw \<Rightarrow> avr_hw" where
  "writeDram_fp6 row col color h =
     (let h = h\<lparr>DATA_PORT_DDR := 0x0F\<rparr>;
          h = setAddress_fp6 row col h;
          h = out_PORTL_fp6 (unset_bit RAS_BIT (PORTL h)) h;
          h = out_PORTL_fp6 (unset_bit CAS_BIT (PORTL h)) h;
          h = out_PORTC_fp6 (unset_bit WE_BIT (PORTC h)) h;
          h = h\<lparr>PORTA := color\<rparr>;
          h = out_PORTL_fp6 (set_bit CAS_BIT (PORTL h)) h;
          h = out_PORTC_fp6 (set_bit WE_BIT (PORTC h)) h;
          h = out_PORTL_fp6 (set_bit RAS_BIT (PORTL h)) h
      in h)"

text \<open>
  \<open>casBeforeRasRefresh()\<close>: one CAS-before-RAS refresh cycle for each \<open>row\<close> from 0
  below \<open>DRAM_ROWS\<close>, with the same four instructions as in the 320x240 sketch.
\<close>

definition cbr_refresh_cycle_fp6 :: "fp6 \<Rightarrow> fp6" where
  "cbr_refresh_cycle_fp6 s =
     (let h = hw_fp6 s;
          h = h\<lparr>PORTL := unset_bit CAS_BIT (PORTL h)\<rparr>;
          h = h\<lparr>PORTL := unset_bit RAS_BIT (PORTL h)\<rparr>;
          h = h\<lparr>PORTL := set_bit RAS_BIT (PORTL h)\<rparr>;
          h = h\<lparr>PORTL := set_bit CAS_BIT (PORTL h)\<rparr>
      in s\<lparr>hw_fp6 := h, cbr_cycles_fp6 := Suc (cbr_cycles_fp6 s)\<rparr>)"

fun casBeforeRasRefresh_loop :: "nat \<Rightarrow> fp6 \<Rightarrow> fp6" where
  "casBeforeRasRefresh_loop 0 s = s"
| "casBeforeRasRefresh_loop (Suc n) s = casBeforeRasRefresh_loop n (cbr_refresh_cycle_fp6 s)"

definition casBeforeRasRefresh :: "fp6 \<Rightarrow> fp6" where
  "casBeforeRasRefresh s = casBeforeRasRefresh_loop (nat DRAM_ROWS_fp6) s"

text \<open>
  \<open>drawPixel(x, y, color)\<close> of this sketch: a linear buffer that is filled up to its
  size and emptied by the frame handler; it returns nothing.
\<close>

definition drawPixel_fp6 :: "int \<Rightarrow> int \<Rightarrow> 8 word \<Rightarrow> fp6 \<Rightarrow> fp6" where
  "drawPixel_fp6 x y c s =
     (if x < 0 \<or> x \<ge> FRAMEBUFFER_WIDTH_fp6 \<or> y < 0 \<or> y \<ge> FRAMEBUFFER_HEIGHT_fp6 then s
      else if update_buffer_index s < MAX_UPDATE_BUFFER_SIZE_fp6
      then s\<lparr>update_buffer_fp6 :=
                (update_buffer_fp6 s)[nat (update_buffer_index s) :=
                   \<lparr>x_fp6 = x, y_fp6 = y, color_fp6 = c\<rparr>],
              update_buffer_index := update_buffer_index s + 1\<rparr>
      else s)"

text \<open>
  The address computation of \<open>applyBufferToDRAM\<close>:
  \<open>unsigned int pixelIndex = update.y * FRAMEBUFFER_WIDTH + update.x\<close>, then the
  quotient and the remainder by \<open>DRAM_COLS\<close> in \<open>unsigned int\<close>.
\<close>

definition pixelIndex :: "int \<Rightarrow> int \<Rightarrow> 16 word" where
  "pixelIndex x y = word_of_int (y * FRAMEBUFFER_WIDTH_fp6 + x)"

definition dramRow :: "int \<Rightarrow> int \<Rightarrow> 16 word" where
  "dramRow x y = pixelIndex x y div word_of_int DRAM_COLS_fp6"

definition dramCol :: "int \<Rightarrow> int \<Rightarrow> 16 word" where
  "dramCol x y = pixelIndex x y mod word_of_int DRAM_COLS_fp6"

definition write_update_fp6 :: "PixelUpdate_fp6 \<Rightarrow> fp6 \<Rightarrow> fp6" where
  "write_update_fp6 update s =
     s\<lparr>hw_fp6 := writeDram_fp6 (dramRow (x_fp6 update) (y_fp6 update))
                             (dramCol (x_fp6 update) (y_fp6 update)) (color_fp6 update)
                             (hw_fp6 s)\<rparr>"

text \<open>
  \<open>applyBufferToDRAM()\<close>: \<open>for (int i = 0; i < update_buffer_index; i++)\<close>. The loop
  is the recursion on \<open>i\<close>; it ends because the body leaves \<open>update_buffer_index\<close>
  alone.
\<close>

function applyBufferToDRAM_loop :: "int \<Rightarrow> fp6 \<Rightarrow> fp6" where
  "applyBufferToDRAM_loop i s =
     (if i < update_buffer_index s
      then applyBufferToDRAM_loop (i + 1) (write_update_fp6 (update_buffer_fp6 s ! nat i) s)
      else s)"
  by pat_completeness auto
termination
  by (relation "measure (\<lambda>(i, s). nat (update_buffer_index s - i))")
     (simp_all add: write_update_fp6_def)

definition applyBufferToDRAM :: "fp6 \<Rightarrow> fp6" where
  "applyBufferToDRAM s = applyBufferToDRAM_loop 0 s"

text \<open>
  \<open>ISR(TIMER5_COMPA_vect)\<close> of this sketch: the drain, the reset of the buffer index,
  the refresh without any guard, and the reset of the line counters.
\<close>

definition vsync_isr_fp6 :: "fp6 \<Rightarrow> fp6" where
  "vsync_isr_fp6 s =
     (let s1 = applyBufferToDRAM (s\<lparr>vBlank_in_progress := True\<rparr>);
          s2 = s1\<lparr>update_buffer_index := 0\<rparr>;
          s3 = casBeforeRasRefresh s2
      in s3\<lparr>currentScanline := 0, currentRow := 0, vBlank_in_progress := False\<rparr>)"

text \<open>
  The condition of the \<open>if\<close> in \<open>ISR(TIMER1_COMPA_vect)\<close> of this sketch, on
  \<open>currentScanline\<close> after its increment.
\<close>

definition active_line_fp6 :: "int \<Rightarrow> bool" where
  "active_line_fp6 line \<longleftrightarrow> line \<ge> 35 \<and> line < FRAMEBUFFER_HEIGHT_fp6 + 35"

text \<open>The entries the next drain will write: the slots below \<open>update_buffer_index\<close>.\<close>

definition pending_fp6 :: "fp6 \<Rightarrow> PixelUpdate_fp6 list" where
  "pending_fp6 s = map (\<lambda>k. update_buffer_fp6 s ! k) [0 ..< nat (update_buffer_index s)]"

text \<open>
  The globals of this sketch as their initialisers leave them, with the hardware as
  \<open>setup()\<close> leaves it on a blank chip: RAS, CAS, WE, OE, SC and SE high.
\<close>

definition power_on_fp6 :: fp6 where
  "power_on_fp6 =
     \<lparr>update_buffer_fp6 = replicate 1024 \<lparr>x_fp6 = 0, y_fp6 = 0, color_fp6 = 0\<rparr>,
      update_buffer_index = 0,
      vBlank_in_progress = False,
      currentScanline = 0,
      currentRow = 0,
      hw_fp6 = \<lparr>PORTA = 0, DATA_PORT_DDR = 0x0F, PORTC = 0xF0, PORTD = 0, PORTL = 0x18,
                latched_row = 0, latched_col = 0, dram_cells = (\<lambda>cell. 0)\<rparr>,
      cbr_cycles_fp6 = 0\<rparr>"

section \<open>The MSM514262 read/write sketch (src/unnamed/part\_002)\<close>

text \<open>
  The sketch drives the DRAM pin by pin with \<open>digitalWrite\<close> and \<open>digitalRead\<close>. The
  model keeps the levels of the pins and, behind them, the chip: its row and column
  latches and its array of 4-bit cells, 512 rows by 512 columns (nine address lines).
\<close>

datatype pin_level = LOW | HIGH
datatype pin_mode = INPUT | OUTPUT
datatype control_pin = RAS_PIN | CAS_PIN | WE_PIN | OE_PIN

definition DATA_PINS_COUNT :: nat where "DATA_PINS_COUNT = 4"
definition ADDRESS_PINS_COUNT :: nat where "ADDRESS_PINS_COUNT = 9"
definition DRAM_ROWS_msm :: "16 word" where "DRAM_ROWS_msm = 512"
definition DRAM_COLS_msm :: "16 word" where "DRAM_COLS_msm = 512"

text \<open>
  \<open>data_out\<close> are the levels the controller puts on the data pins, \<open>data_mode\<close> their
  direction, \<open>address_bus\<close> the levels of the address pins, \<open>ras\<close>, \<open>cas\<close>, \<open>we\<close>,
  \<open>oe\<close> the levels of the four strobes (active low). \<open>floating\<close> is what the data
  lines read as when nobody drives them.
\<close>

record board =
  data_mode :: pin_mode
  data_out :: "4 word"
  address_bus :: "9 word"
  ras :: pin_level
  cas :: pin_level
  we :: pin_level
  oe :: pin_level
  row_latch :: "9 word"
  col_latch :: "9 word"
  cells :: "9 word \<times> 9 word \<Rightarrow> 4 word"
  floating :: "4 word"

text \<open>
  The chip, as the comments of the sketch describe its cycles: the falling edge of RAS
  latches the row address from the address lines; the falling edge of CAS, with RAS
  low, latches the column address; a write happens when WE goes low with RAS and CAS
  low (or CAS goes low with WE already low), and stores the levels of the data lines
  in the addressed cell; with RAS, CAS and OE low and WE high the chip drives the data
  lines with the addressed cell.
\<close>

definition controller_data :: "board \<Rightarrow> 4 word" where
  "controller_data s = (if data_mode s = OUTPUT then data_out s else floating s)"

definition chip_drives :: "board \<Rightarrow> bool" where
  "chip_drives s \<longleftrightarrow> ras s = LOW \<and> cas s = LOW \<and> oe s = LOW \<and> we s = HIGH"

definition data_lines :: "board \<Rightarrow> 4 word" where
  "data_lines s =
     (if chip_drives s then cells s (row_latch s, col_latch s) else controller_data s)"

definition store_cell :: "board \<Rightarrow> board" where
  "store_cell s = s\<lparr>cells := (cells s)((row_latch s, col_latch s) := controller_data s)\<rparr>"

text \<open>\<open>digitalWrite\<close> on one of the four strobe pins, with the reaction of the chip.\<close>

fun digitalWrite :: "control_pin \<Rightarrow> pin_level \<Rightarrow> board \<Rightarrow> board" where
  "digitalWrite RAS_PIN v s =
     (if v = LOW \<and> ras s = HIGH then s\<lparr>ras := LOW, row_latch := address_bus s\<rparr>
      else s\<lparr>ras := v\<rparr>)"
| "digitalWrite CAS_PIN v s =
     (if v = LOW \<and> cas s = HIGH \<and> ras s = LOW
      then (let s1 = s\<lparr>cas := LOW, col_latch := address_bus s\<rparr>
            in if we s = LOW then store_cell s1 else s1)
      else s\<lparr>cas := v\<rparr>)"
| "digitalWrite WE_PIN v s =
     (if v = LOW \<and> we s = HIGH \<and> ras s = LOW \<and> cas s = LOW
      then store_cell (s\<lparr>we := LOW\<rparr>)
      else s\<lparr>we := v\<rparr>)"
| "digitalWrite OE_PIN v s = s\<lparr>oe := v\<rparr>"

text \<open>
  \<open>digitalWrite\<close> on the address pin \<open>ADDRESS_PINS[i]\<close> and on the data pin
  \<open>DATA_PINS[i]\<close>, and \<open>digitalRead\<close> on a data pin. The second argument of
  \<open>digitalWrite\<close> is the C value: zero is LOW, anything else HIGH.
\<close>

definition digitalWrite_address :: "nat \<Rightarrow> 16 word \<Rightarrow> board \<Rightarrow> board" where
  "digitalWrite_address i v s =
     s\<lparr>address_bus := (if v = 0 then unset_bit i (address_bus s) else set_bit i (address_bus s))\<rparr>"

definition digitalWrite_data :: "nat \<Rightarrow> 8 word \<Rightarrow> board \<Rightarrow> board" where
  "digitalWrite_data i v s =
     s\<lparr>data_out := (if v = 0 then unset_bit i (data_out s) else set_bit i (data_out s))\<rparr>"

definition digitalRead_data :: "nat \<Rightarrow> board \<Rightarrow> pin_level" where
  "digitalRead_data i s = (if bit (data_lines s) i then HIGH else LOW)"

text \<open>The helper functions of the sketch; each \<open>for\<close> loop runs over the pin numbers.\<close>

definition setDataBusMode :: "pin_mode \<Rightarrow> board \<Rightarrow> board" where
  "setDataBusMode mode s = s\<lparr>data_mode := mode\<rparr>"

definition setAddress :: "16 word \<Rightarrow> board \<Rightarrow> board" where
  "setAddress address s =
     fold (\<lambda>i. digitalWrite_address i (drop_bit i address AND 0x01)) [0 ..< ADDRESS_PINS_COUNT] s"

definition writeDataBus :: "8 word \<Rightarrow> board \<Rightarrow> board" where
  "writeDataBus data s =
     fold (\<lambda>i. digitalWrite_data i (drop_bit i data AND 0x01)) [0 ..< DATA_PINS_COUNT] s"

definition readDataBus :: "board \<Rightarrow> 8 word" where
  "readDataBus s =
     fold (\<lambda>i data. if digitalRead_data i s = HIGH then data OR push_bit i 1 else data)
          [0 ..< DATA_PINS_COUNT] 0"

text \<open>
  \<open>writeDram(row, col, data)\<close> and \<open>readDram(row, col)\<close>, statement by statement;
  the \<open>delayMicroseconds\<close> calls change no pin and are left out.
\<close>

definition writeDram :: "16 word \<Rightarrow> 16 word \<Rightarrow> 8 word \<Rightarrow> board \<Rightarrow> board" where
  "writeDram row col data s =
     (let s = setDataBusMode OUTPUT s;
          s = digitalWrite WE_PIN HIGH s;
          s = digitalWrite OE_PIN HIGH s;
          s = setAddress row s;
          s = digitalWrite RAS_PIN LOW s;
          s = setAddress col s;
          s = writeDataBus data s;
          s = digitalWrite CAS_PIN LOW s;
          s = digitalWrite WE_PIN LOW s;
          s = digitalWrite CAS_PIN HIGH s;
          s = digitalWrite WE_PIN HIGH s;
          s = digitalWrite RAS_PIN HIGH s
      in s)"

definition readDram :: "16 word \<Rightarrow> 16 word \<Rightarrow> board \<Rightarrow> 8 word \<times> board" where
  "readDram row col s =
     (let s = setDataBusMode INPUT s;
          s = digitalWrite WE_PIN HIGH s;
          s = digitalWrite OE_PIN HIGH s;
          s = setAddress row s;
          s = digitalWrite RAS_PIN LOW s;
          s = setAddress col s;
          s = digitalWrite CAS_PIN LOW s;
          s = digitalWrite OE_PIN LOW s;
          data = readDataBus s;
          s = digitalWrite OE_PIN HIGH s;
          s = digitalWrite CAS_PIN HIGH s;
          s = digitalWrite RAS_PIN HIGH s
      in (data, s))"

text \<open>The pins as \<open>setup()\<close> leaves them, with a blank array.\<close>

definition board_after_setup :: board where
  "board_after_setup =
     \<lparr>data_mode = OUTPUT, data_out = 0, address_bus = 0,
      ras = HIGH, cas = HIGH, we = HIGH, oe = HIGH,
      row_latch = 0, col_latch = 0, cells = (\<lambda>cell. 0), floating = 0\<rparr>"

section \<open>The 511000 latency tester (src/dram/511000\_opt.ino)\<close>

text \<open>
  The three ports as 8-bit registers, the time of the last refresh (\<open>unsigned long\<close>,
  32 bits), and a log with the levels of the address ports at each statement that
  pulls RAS low, that is at each start of a RAS-only refresh cycle. The names of the
  ports and of the RAS bit carry the suffix \<open>_opt\<close>.
\<close>

definition totalAddresses :: "32 word" where "totalAddresses = 131072"

definition refreshInterval :: "32 word" where "refreshInterval = 250"
definition RAS_BIT_opt :: nat where "RAS_BIT_opt = 1"

record tester =
  PORTB_opt :: "8 word"
  PORTC_opt :: "8 word"
  PORTD_opt :: "8 word"
  lastRefreshMicros :: "32 word"
  ras_strobes :: "(8 word \<times> 8 word) list"

text \<open>
  \<open>setAddress(addr)\<close> of this sketch: three read-modify-write port accesses. They put
  bits 0 to 5 of \<open>addr\<close> in bits 2 to 7 of \<open>PORTD\<close>, bits 6 and 7 in bits 0 and 1 of
  \<open>PORTD\<close>, and bits 8 and 9 in bits 2 and 3 of \<open>PORTB\<close>.
\<close>

definition setAddress_opt :: "16 word \<Rightarrow> tester \<Rightarrow> tester" where
  "setAddress_opt addr s =
     (let s = s\<lparr>PORTD_opt := (PORTD_opt s AND 0x03) OR ucast (push_bit 2 addr AND 0xFC)\<rparr>;
          s = s\<lparr>PORTD_opt := (PORTD_opt s AND 0xFC) OR ucast (drop_bit 6 addr AND 0x03)\<rparr>;
          s = s\<lparr>PORTB_opt := (PORTB_opt s AND 0xF3) OR ucast (drop_bit 6 addr AND 0x0C)\<rparr>
      in s)"

text \<open>
  The address that the levels of the two address ports present to the chip: the
  placement of \<open>setAddress\<close> read backwards.
\<close>

definition row_on_pins :: "8 word \<times> 8 word \<Rightarrow> 16 word" where
  "row_on_pins p =
     ucast (drop_bit 2 (fst p)) OR
     push_bit 6 (ucast (fst p AND 0x03)) OR
     push_bit 8 (ucast (drop_bit 2 (snd p) AND 0x03))"

text \<open>
  The row of a bit address, as \<open>writeBitTimed\<close> and \<open>readBitTimed\<close> compute it:
  \<open>uint16_t row = (addr >> 8) & 0x1FF\<close>. The test loops run \<open>addr\<close> from 0 below
  \<open>totalAddresses\<close>.
\<close>

definition address_row :: "32 word \<Rightarrow> 16 word" where
  "address_row addr = ucast (drop_bit 8 addr AND 0x1FF)"

text \<open>
  The body of the loop of \<open>refreshAllRows\<close>: the address, RAS low
  (\<open>PORTC &= ~(1 << RAS_BIT)\<close>), RAS high (\<open>PORTC |= (1 << RAS_BIT)\<close>).
\<close>

definition refresh_row :: "16 word \<Rightarrow> tester \<Rightarrow> tester" where
  "refresh_row row s =
     (let s = setAddress_opt row s;
          s = s\<lparr>PORTC_opt := PORTC_opt s AND NOT (push_bit RAS_BIT_opt 1),
                ras_strobes := ras_strobes s @ [(PORTD_opt s, PORTB_opt s)]\<rparr>;
          s = s\<lparr>PORTC_opt := PORTC_opt s OR push_bit RAS_BIT_opt 1\<rparr>
      in s)"

text \<open>\<open>for (uint16_t row = 0; row < 256; row++)\<close>.\<close>

function refreshAllRows_loop :: "16 word \<Rightarrow> tester \<Rightarrow> tester" where
  "refreshAllRows_loop row s =
     (if row < 256 then refreshAllRows_loop (row + 1) (refresh_row row s) else s)"
  by pat_completeness auto
termination
proof (relation "measure (\<lambda>(row, s). 256 - unat row)")
  show "wf (measure (\<lambda>(row, s). 256 - unat row))" by simp
next
  fix row :: "16 word" and s :: tester
  assume "row < 256"
  then have r: "unat row < 256" by (simp add: word_less_nat_alt)
  then have "unat (row + 1) = unat row + 1"
    by (simp add: unat_word_ariths)
  then show "((row + 1, refresh_row row s), (row, s)) \<in> measure (\<lambda>(row, s). 256 - unat row)"
    using r by simp
qed

definition refreshAllRows :: "tester \<Rightarrow> tester" where
  "refreshAllRows s = refreshAllRows_loop 0 s"

text \<open>
  \<open>refreshIfNeeded()\<close>; the value \<open>now\<close> that the sketch reads from \<open>micros()\<close> is
  the first argument. The subtraction is in \<open>unsigned long\<close> and wraps.
\<close>

definition refreshIfNeeded :: "32 word \<Rightarrow> tester \<Rightarrow> tester" where
  "refreshIfNeeded now s =
     (if now - lastRefreshMicros s \<ge> refreshInterval
      then (refreshAllRows s)\<lparr>lastRefreshMicros := now\<rparr>
      else s)"

definition tester_after_setup :: tester where
  "tester_after_setup =
     \<lparr>PORTB_opt = 0, PORTC_opt = 0x0E, PORTD_opt = 0, lastRefreshMicros = 0, ras_strobes = []\<rparr>"

section \<open>Properties of the port writes\<close>

text \<open>The chip changes no port register.\<close>

lemma chip_react_ports [simp]:
  "PORTA (chip_react a r c w h) = PORTA h"
  "DATA_PORT_DDR (chip_react a r c w h) = DATA_PORT_DDR h"
  "PORTC (chip_react a r c w h) = PORTC h"
  "PORTD (chip_react a r c w h) = PORTD h"
  "PORTL (chip_react a r c w h) = PORTL h"
  by (simp_all add: chip_react_def Let_def)

lemma out_PORTL_ports [simp]:
  "PORTA (out_PORTL v h) = PORTA h"
  "DATA_PORT_DDR (out_PORTL v h) = DATA_PORT_DDR h"
  "PORTC (out_PORTL v h) = PORTC h"
  "PORTD (out_PORTL v h) = PORTD h"
  "PORTL (out_PORTL v h) = v"
  by (simp_all add: out_PORTL_def)

lemma out_PORTC_ports [simp]:
  "PORTA (out_PORTC v h) = PORTA h"
  "DATA_PORT_DDR (out_PORTC v h) = DATA_PORT_DDR h"
  "PORTC (out_PORTC v h) = v"
  "PORTD (out_PORTC v h) = PORTD h"
  "PORTL (out_PORTC v h) = PORTL h"
  by (simp_all add: out_PORTC_def)

text \<open>
  What \<open>setDRAMAddress\<close> reads of its arguments: the low three bits of the row and the
  low six bits of the column.
\<close>

lemma column_bits_on_ports:
  fixes col :: "16 word"
  shows "(col AND 0x3F) AND 0x03 = col AND 0x03"
    and "drop_bit 2 (col AND 0x3F) AND 0x0F = drop_bit 2 col AND 0x0F"
proof -
  show "(col AND 0x3F) AND 0x03 = col AND 0x03"
    by (simp add: and.assoc)
  show "drop_bit 2 (col AND 0x3F) AND 0x0F = drop_bit 2 col AND 0x0F"
    by (rule bit_eqI) (auto simp: bit_simps)
qed

lemma row_bits_on_ports:
  fixes row :: "16 word"
  shows "(row AND 0x07) AND 0x07 = row AND 0x07"
  by (simp add: and.assoc)

lemma setDRAMAddress_low_bits:
  "setDRAMAddress row col h = setDRAMAddress (row AND 0x07) (col AND 0x3F) h"
  by (simp add: setDRAMAddress_def column_bits_on_ports row_bits_on_ports)

lemma writeDRAM_low_bits:
  "writeDRAM row col color h = writeDRAM (row AND 0x07) (col AND 0x3F) color h"
  unfolding writeDRAM_def by (subst setDRAMAddress_low_bits) (rule refl)

section \<open>Properties of the 320x240 framebuffer sketch\<close>

subsection \<open>The DRAM array and the fields of the sketch\<close>

lemma dram_frame [simp]:
  "dram (s\<lparr>update_buffer := a\<rparr>) = dram s"
  "dram (s\<lparr>update_buffer_write_index := b\<rparr>) = dram s"
  "dram (s\<lparr>update_buffer_read_index := c\<rparr>) = dram s"
  "dram (s\<lparr>buffer_overflow := d\<rparr>) = dram s"
  "dram (s\<lparr>current_scanline := e\<rparr>) = dram s"
  "dram (s\<lparr>current_video_line := f\<rparr>) = dram s"
  "dram (s\<lparr>vblank_active := g\<rparr>) = dram s"
  "dram (s\<lparr>frame_count := h\<rparr>) = dram s"
  "dram (s\<lparr>timing_error := i\<rparr>) = dram s"
  "dram (s\<lparr>cbr_cycles := j\<rparr>) = dram s"
  "dram (s\<lparr>sam_row := k\<rparr>) = dram s"
  "dram (s\<lparr>TCCR3B := l\<rparr>) = dram s"
  by (simp_all add: dram_def)

subsection \<open>Arithmetic of the ring indices\<close>

lemma mod_65536_512: "(n::nat) mod 65536 mod 512 = n mod 512"
  by (rule mod_mod_cancel) simp

lemma unat_next_index: "unat (((w::16 word) + 1) mod 512) = (unat w + 1) mod 512"
  by (simp add: unat_mod_distrib unat_word_ariths mod_65536_512)

lemma mod_512_if:
  fixes a :: nat
  assumes "a < 1024"
  shows "a mod 512 = (if a < 512 then a else a - 512)"
proof (cases "a < 512")
  case True
  then show ?thesis by simp
next
  case False
  then have "a mod 512 = (a - 512) mod 512"
    by (simp add: le_mod_geq)
  then show ?thesis using False assms by simp
qed

lemma ring_diff_nat:
  fixes a b :: nat
  assumes "a < 512" "b < 512"
  shows "(a + 512 - b) mod 512 = (if b \<le> a then a - b else a + 512 - b)"
  using assms by (simp add: mod_512_if)

lemma unat_sub_mod_512:
  fixes w r :: "16 word"
  assumes "unat w < 512" "unat r < 512"
  shows "unat ((w - r) mod 512) = (unat w + 512 - unat r) mod 512"
proof (cases "unat r \<le> unat w")
  case True
  then show ?thesis using assms
    by (simp add: unat_mod_distrib unat_sub_if' ring_diff_nat)
next
  case False
  define d where "d = unat w + 512 - unat r"
  have e: "unat w + 65536 - unat r = d + 127 * 512"
    using False assms by (simp add: d_def)
  have "unat ((w - r) mod 512) = (unat w + 65536 - unat r) mod 512"
    using False by (simp add: unat_mod_distrib unat_sub_if')
  also have "\<dots> = d mod 512"
    unfolding e by (rule mod_mult_self1)
  finally show ?thesis by (simp add: d_def)
qed

lemma ring_inv_nat:
  "ring_inv s \<longleftrightarrow>
     length (update_buffer s) = 512 \<and> unat (update_buffer_write_index s) < 512 \<and>
     unat (update_buffer_read_index s) < 512"
  by (simp add: ring_inv_def MAX_UPDATE_BUFFER_SIZE_def word_less_nat_alt)

lemma occupancy_nat:
  "ring_inv s \<Longrightarrow> occupancy s =
     (unat (update_buffer_write_index s) + 512 - unat (update_buffer_read_index s)) mod 512"
  by (simp add: ring_inv_nat occupancy_def MAX_UPDATE_BUFFER_SIZE_def unat_sub_mod_512)

lemma occupancy_le: "occupancy s \<le> 511"
proof -
  have "occupancy s < 512"
    by (simp add: occupancy_def MAX_UPDATE_BUFFER_SIZE_def unat_mod_distrib)
  then show ?thesis by simp
qed

lemma ring_full_iff:
  assumes "ring_inv s"
  shows "(update_buffer_write_index s + 1) mod MAX_UPDATE_BUFFER_SIZE = update_buffer_read_index s
         \<longleftrightarrow> occupancy s = 511"
proof -
  let ?w = "unat (update_buffer_write_index s)" and ?r = "unat (update_buffer_read_index s)"
  have b: "?w < 512" "?r < 512" using assms by (simp_all add: ring_inv_nat)
  have "(update_buffer_write_index s + 1) mod MAX_UPDATE_BUFFER_SIZE = update_buffer_read_index s
        \<longleftrightarrow> (?w + 1) mod 512 = ?r"
    by (simp add: word_unat_eq_iff MAX_UPDATE_BUFFER_SIZE_def unat_next_index)
  also have "\<dots> \<longleftrightarrow> (?w + 512 - ?r) mod 512 = 511"
    using b by (auto simp: mod_512_if split: if_splits)
  finally show ?thesis using assms by (simp add: occupancy_nat)
qed

lemma ring_empty_iff:
  assumes "ring_inv s"
  shows "update_buffer_read_index s = update_buffer_write_index s \<longleftrightarrow> occupancy s = 0"
proof -
  let ?w = "unat (update_buffer_write_index s)" and ?r = "unat (update_buffer_read_index s)"
  have b: "?w < 512" "?r < 512" using assms by (simp_all add: ring_inv_nat)
  have "update_buffer_read_index s = update_buffer_write_index s \<longleftrightarrow> ?r = ?w"
    by (simp add: word_unat_eq_iff)
  also have "\<dots> \<longleftrightarrow> (?w + 512 - ?r) mod 512 = 0"
    using b by (auto simp: mod_512_if split: if_splits)
  finally show ?thesis using assms by (simp add: occupancy_nat)
qed

lemma ring_slot_before_write:
  fixes w r i :: nat
  assumes "w < 512" "r < 512" "i < (w + 512 - r) mod 512"
  shows "(r + i) mod 512 \<noteq> w"
  using assms by (auto simp: mod_512_if split: if_splits)

lemma ring_slot_at_write:
  fixes w r :: nat
  assumes "w < 512" "r < 512"
  shows "(r + (w + 512 - r) mod 512) mod 512 = w"
  using assms by (auto simp: mod_512_if split: if_splits)

lemma ring_occupancy_succ:
  fixes w r :: nat
  assumes "w < 512" "r < 512" "(w + 512 - r) mod 512 \<noteq> 511"
  shows "((w + 1) mod 512 + 512 - r) mod 512 = Suc ((w + 512 - r) mod 512)"
  using assms by (auto simp: mod_512_if split: if_splits)

lemma ring_occupancy_pred:
  fixes w r :: nat
  assumes "w < 512" "r < 512" "r \<noteq> w"
  shows "Suc ((w + 512 - (r + 1) mod 512) mod 512) = (w + 512 - r) mod 512"
  using assms by (auto simp: mod_512_if split: if_splits)

subsection \<open>One call of drawPixel\<close>

lemma drawPixel_out_of_bounds:
  "x \<ge> FRAMEBUFFER_WIDTH \<or> y \<ge> FRAMEBUFFER_HEIGHT \<Longrightarrow> drawPixel x y c s = (False, s)"
  by (simp add: drawPixel_def)

lemma drawPixel_full:
  assumes "x < FRAMEBUFFER_WIDTH" "y < FRAMEBUFFER_HEIGHT"
    and "(update_buffer_write_index s + 1) mod MAX_UPDATE_BUFFER_SIZE = update_buffer_read_index s"
  shows "drawPixel x y c s = (False, s\<lparr>buffer_overflow := True\<rparr>)"
  using assms by (simp add: drawPixel_def Let_def not_le [symmetric])

lemma drawPixel_stored:
  assumes "x < FRAMEBUFFER_WIDTH" "y < FRAMEBUFFER_HEIGHT"
    and "(update_buffer_write_index s + 1) mod MAX_UPDATE_BUFFER_SIZE \<noteq> update_buffer_read_index s"
  shows "drawPixel x y c s =
           (True, s\<lparr>update_buffer :=
                      (update_buffer s)[unat (update_buffer_write_index s) :=
                         \<lparr>upd_x = x, upd_y = y, upd_color = c\<rparr>],
                    update_buffer_write_index :=
                      (update_buffer_write_index s + 1) mod MAX_UPDATE_BUFFER_SIZE\<rparr>)"
  using assms by (simp add: drawPixel_def Let_def not_le [symmetric])

lemma drawPixel_accepted_iff:
  "fst (drawPixel x y c s) \<longleftrightarrow>
     x < FRAMEBUFFER_WIDTH \<and> y < FRAMEBUFFER_HEIGHT \<and>
     (update_buffer_write_index s + 1) mod MAX_UPDATE_BUFFER_SIZE \<noteq> update_buffer_read_index s"
  by (auto simp: drawPixel_def Let_def)

lemma pending_empty: "occupancy s = 0 \<Longrightarrow> pending s = []"
  by (simp add: pending_def)

lemma length_pending: "length (pending s) = occupancy s"
  by (simp add: pending_def)

lemma drawPixel_stored_pending:
  assumes inv: "ring_inv s"
    and ok: "fst (drawPixel x y c s)"
  defines "s1 \<equiv> snd (drawPixel x y c s)"
  shows "ring_inv s1"
    and "occupancy s1 = Suc (occupancy s)"
    and "pending s1 = pending s @ [\<lparr>upd_x = x, upd_y = y, upd_color = c\<rparr>]"
proof -
  let ?w = "unat (update_buffer_write_index s)" and ?r = "unat (update_buffer_read_index s)"
  let ?u = "\<lparr>upd_x = x, upd_y = y, upd_color = c\<rparr>"
  have b: "?w < 512" "?r < 512" "length (update_buffer s) = 512"
    using inv by (simp_all add: ring_inv_nat)
  from ok have xy: "x < FRAMEBUFFER_WIDTH" "y < FRAMEBUFFER_HEIGHT"
    and nf: "(update_buffer_write_index s + 1) mod MAX_UPDATE_BUFFER_SIZE
               \<noteq> update_buffer_read_index s"
    by (simp_all add: drawPixel_accepted_iff)
  have s1: "s1 = s\<lparr>update_buffer := (update_buffer s)[?w := ?u],
                   update_buffer_write_index :=
                     (update_buffer_write_index s + 1) mod MAX_UPDATE_BUFFER_SIZE\<rparr>"
    unfolding s1_def by (simp add: drawPixel_stored [OF xy nf])
  have w1: "unat (update_buffer_write_index s1) = (?w + 1) mod 512"
    by (simp add: s1 MAX_UPDATE_BUFFER_SIZE_def unat_next_index)
  show inv1: "ring_inv s1"
    using b w1 by (simp add: ring_inv_nat) (simp add: s1)
  have occ: "occupancy s \<noteq> 511"
    using nf ring_full_iff [OF inv] by simp
  then have occ_nat: "(?w + 512 - ?r) mod 512 \<noteq> 511"
    using inv by (simp add: occupancy_nat)
  have "occupancy s1 = ((?w + 1) mod 512 + 512 - ?r) mod 512"
    using occupancy_nat [OF inv1] w1 by (simp add: s1)
  also have "\<dots> = Suc ((?w + 512 - ?r) mod 512)"
    by (rule ring_occupancy_succ [OF b(1,2) occ_nat])
  finally show occ1: "occupancy s1 = Suc (occupancy s)"
    using inv by (simp add: occupancy_nat)
  have old: "(update_buffer s)[?w := ?u] ! ((?r + i) mod 512) = update_buffer s ! ((?r + i) mod 512)"
    if "i < occupancy s" for i
  proof -
    from that have "i < (?w + 512 - ?r) mod 512" using inv by (simp add: occupancy_nat)
    then have "(?r + i) mod 512 \<noteq> ?w" by (rule ring_slot_before_write [OF b(1,2)])
    then show ?thesis by simp
  qed
  have new: "(update_buffer s)[?w := ?u] ! ((?r + occupancy s) mod 512) = ?u"
    using b by (simp add: occupancy_nat [OF inv] ring_slot_at_write)
  show "pending s1 = pending s @ [?u]"
    unfolding pending_def occ1
    by (simp add: s1 MAX_UPDATE_BUFFER_SIZE_def old new)
qed

lemma drawPixel_frame:
  "hw (snd (drawPixel x y c s)) = hw s"
  "dram (snd (drawPixel x y c s)) = dram s"
  "update_buffer_read_index (snd (drawPixel x y c s)) = update_buffer_read_index s"
  "cbr_cycles (snd (drawPixel x y c s)) = cbr_cycles s"
  "timing_error (snd (drawPixel x y c s)) = timing_error s"
  "length (update_buffer (snd (drawPixel x y c s))) = length (update_buffer s)"
  by (simp_all add: drawPixel_def Let_def dram_def)

lemma drawPixel_rejected_ring:
  assumes "\<not> fst (drawPixel x y c s)"
  shows "update_buffer (snd (drawPixel x y c s)) = update_buffer s"
    and "update_buffer_write_index (snd (drawPixel x y c s)) = update_buffer_write_index s"
    and "pending (snd (drawPixel x y c s)) = pending s"
    and "occupancy (snd (drawPixel x y c s)) = occupancy s"
    and "ring_inv (snd (drawPixel x y c s)) = ring_inv s"
  using assms
  by (auto simp: drawPixel_def Let_def pending_def occupancy_def ring_inv_def split: if_splits)

lemma drawPixel_ring_inv: "ring_inv s \<Longrightarrow> ring_inv (snd (drawPixel x y c s))"
  using drawPixel_stored_pending(1) drawPixel_rejected_ring(5) by blast

subsection \<open>The drain\<close>

lemma write_update_frame:
  "update_buffer (write_update u s) = update_buffer s"
  "update_buffer_write_index (write_update u s) = update_buffer_write_index s"
  "update_buffer_read_index (write_update u s) = update_buffer_read_index s"
  "buffer_overflow (write_update u s) = buffer_overflow s"
  "cbr_cycles (write_update u s) = cbr_cycles s"
  "frame_count (write_update u s) = frame_count s"
  by (simp_all add: write_update_def)

lemma write_update_read_index:
  "write_update u (s\<lparr>update_buffer_read_index := a\<rparr>) =
     (write_update u s)\<lparr>update_buffer_read_index := a\<rparr>"
  by (simp add: write_update_def)

lemma fold_write_update_read_index:
  "fold write_update us (s\<lparr>update_buffer_read_index := a\<rparr>) =
     (fold write_update us s)\<lparr>update_buffer_read_index := a\<rparr>"
  by (induction us arbitrary: s) (simp_all add: write_update_read_index)

lemma fold_write_update_frame:
  "update_buffer (fold write_update us s) = update_buffer s"
  "update_buffer_write_index (fold write_update us s) = update_buffer_write_index s"
  "update_buffer_read_index (fold write_update us s) = update_buffer_read_index s"
  "buffer_overflow (fold write_update us s) = buffer_overflow s"
  "cbr_cycles (fold write_update us s) = cbr_cycles s"
  "frame_count (fold write_update us s) = frame_count s"
  by (induction us arbitrary: s) (simp_all add: write_update_frame)

lemma apply_update_ring:
  assumes inv: "ring_inv s"
    and ne: "update_buffer_read_index s \<noteq> update_buffer_write_index s"
  shows "ring_inv (apply_update s)"
    and "Suc (occupancy (apply_update s)) = occupancy s"
    and "pending s =
           update_buffer s ! unat (update_buffer_read_index s) # pending (apply_update s)"
proof -
  let ?w = "unat (update_buffer_write_index s)" and ?r = "unat (update_buffer_read_index s)"
  let ?s1 = "apply_update s"
  have b: "?w < 512" "?r < 512" "length (update_buffer s) = 512"
    using inv by (simp_all add: ring_inv_nat)
  have rw: "?r \<noteq> ?w" using ne by (simp add: word_unat_eq_iff)
  have r1: "unat (update_buffer_read_index ?s1) = (?r + 1) mod 512"
    by (simp add: apply_update_def MAX_UPDATE_BUFFER_SIZE_def unat_next_index)
  have w1: "update_buffer_write_index ?s1 = update_buffer_write_index s"
    and b1: "update_buffer ?s1 = update_buffer s"
    by (simp_all add: apply_update_def write_update_frame)
  show inv1: "ring_inv ?s1"
    using b r1 by (simp add: ring_inv_nat w1 b1)
  have "Suc (occupancy ?s1) = Suc ((?w + 512 - (?r + 1) mod 512) mod 512)"
    using occupancy_nat [OF inv1] r1 by (simp add: w1)
  also have "\<dots> = (?w + 512 - ?r) mod 512"
    by (rule ring_occupancy_pred [OF b(1,2) rw])
  finally show occ: "Suc (occupancy ?s1) = occupancy s"
    using inv by (simp add: occupancy_nat)
  have shift: "(Suc ?r mod 512 + i) mod 512 = Suc (?r + i) mod 512" for i
    by (simp add: mod_add_left_eq)
  have "pending s =
          map (\<lambda>i. update_buffer s ! ((?r + i) mod 512)) [0 ..< Suc (occupancy ?s1)]"
    by (simp add: pending_def MAX_UPDATE_BUFFER_SIZE_def occ)
  also have "\<dots> = update_buffer s ! ?r #
                    map (\<lambda>i. update_buffer s ! ((?r + Suc i) mod 512)) [0 ..< occupancy ?s1]"
    using b by (simp add: upt_conv_Cons map_Suc_upt [symmetric] del: upt_Suc)
  also have "map (\<lambda>i. update_buffer s ! ((?r + Suc i) mod 512)) [0 ..< occupancy ?s1] = pending ?s1"
    unfolding pending_def by (simp add: b1 r1 MAX_UPDATE_BUFFER_SIZE_def shift)
  finally show "pending s = update_buffer s ! ?r # pending ?s1" .
qed

text \<open>The state the drain leaves: every unread entry written, oldest first, and the ring empty.\<close>

lemma applyBufferUpdates_returns:
  assumes "ring_inv s"
  shows "applyBufferUpdates s =
           Some ((fold write_update (pending s) s)
                   \<lparr>update_buffer_read_index := update_buffer_write_index s\<rparr>)"
  using assms
proof (induction "occupancy s" arbitrary: s)
  case 0
  then have e: "update_buffer_read_index s = update_buffer_write_index s"
    by (simp add: ring_empty_iff)
  have "applyBufferUpdates s = Some s"
    by (subst applyBufferUpdates.simps) (simp add: e)
  moreover have "pending s = []" using 0 by (simp add: pending_empty)
  ultimately show ?case by (simp add: e [symmetric])
next
  case (Suc n)
  then have ne: "update_buffer_read_index s \<noteq> update_buffer_write_index s"
    by (simp add: ring_empty_iff)
  let ?s1 = "apply_update s"
  let ?u = "update_buffer s ! unat (update_buffer_read_index s)"
  note step = apply_update_ring [OF Suc.prems ne]
  have n: "n = occupancy ?s1" using step(2) Suc.hyps(2) by simp
  have "applyBufferUpdates s = applyBufferUpdates ?s1"
    by (subst applyBufferUpdates.simps) (simp add: ne)
  also have "\<dots> = Some ((fold write_update (pending ?s1) ?s1)
                          \<lparr>update_buffer_read_index := update_buffer_write_index ?s1\<rparr>)"
    by (rule Suc.hyps(1) [OF n step(1)])
  also have "update_buffer_write_index ?s1 = update_buffer_write_index s"
    by (simp add: apply_update_def write_update_frame)
  also have "(fold write_update (pending ?s1) ?s1)
               \<lparr>update_buffer_read_index := update_buffer_write_index s\<rparr>
             = (fold write_update (pending s) s)
               \<lparr>update_buffer_read_index := update_buffer_write_index s\<rparr>"
    by (simp add: step(3) apply_update_def fold_write_update_read_index)
  finally show ?case .
qed

subsection \<open>The address of a pixel\<close>

lemma unat_ucast_16_32: "unat (ucast (w :: 16 word) :: 32 word) = unat w"
proof -
  have "unat w < 2 ^ 16" using unsigned_less [of w] by simp
  then have "unat w < (2 ^ 32 :: nat)" by simp
  then show ?thesis
    by (simp add: unsigned_ucast_eq take_bit_nat_eq_self)
qed

lemma unat_ucast_32_16: "unat (w :: 32 word) < 65536 \<Longrightarrow> unat (ucast w :: 16 word) = unat w"
  by (simp add: unsigned_ucast_eq take_bit_nat_eq_self)

lemma unat_pixel_index:
  assumes "x < FRAMEBUFFER_WIDTH" "y < FRAMEBUFFER_HEIGHT"
  shows "unat (pixel_index x y) = unat y * 320 + unat x"
proof -
  have b: "unat x < 320" "unat y < 240"
    using assms
    by (simp_all add: FRAMEBUFFER_WIDTH_def FRAMEBUFFER_HEIGHT_def H_VISIBLE_def V_VISIBLE_def
        word_less_nat_alt)
  then have "unat y * 320 + unat x < 76800" by simp
  then show ?thesis
    by (simp add: pixel_index_def FRAMEBUFFER_WIDTH_def H_VISIBLE_def unat_word_ariths
        unat_ucast_16_32)
qed

lemma unat_dram_row:
  assumes "x < FRAMEBUFFER_WIDTH" "y < FRAMEBUFFER_HEIGHT"
  shows "unat (dram_row x y) = (unat y * 320 + unat x) div 512"
proof -
  have "unat (pixel_index x y div ucast DRAM_COLS) = (unat y * 320 + unat x) div 512"
    by (simp add: unat_div_distrib unat_pixel_index [OF assms] DRAM_COLS_def)
  moreover have "(unat y * 320 + unat x) div 512 < 65536"
    using unsigned_less [of x] unsigned_less [of y] assms
    by (simp add: FRAMEBUFFER_WIDTH_def FRAMEBUFFER_HEIGHT_def H_VISIBLE_def V_VISIBLE_def
        word_less_nat_alt)
  ultimately show ?thesis
    by (simp add: dram_row_def unat_ucast_32_16)
qed

lemma unat_dram_col:
  assumes "x < FRAMEBUFFER_WIDTH" "y < FRAMEBUFFER_HEIGHT"
  shows "unat (dram_col x y) = (unat y * 320 + unat x) mod 512"
proof -
  have "unat (pixel_index x y mod ucast DRAM_COLS) = (unat y * 320 + unat x) mod 512"
    by (simp add: unat_mod_distrib unat_pixel_index [OF assms] DRAM_COLS_def)
  moreover have "(unat y * 320 + unat x) mod 512 < 65536"
    by (rule less_trans [OF mod_less_divisor]) simp_all
  ultimately show ?thesis
    by (simp add: dram_col_def unat_ucast_32_16)
qed

lemma pixel_cell_inj:
  assumes "x < FRAMEBUFFER_WIDTH" "y < FRAMEBUFFER_HEIGHT"
    and "x' < FRAMEBUFFER_WIDTH" "y' < FRAMEBUFFER_HEIGHT"
    and "dram_row x y = dram_row x' y'" "dram_col x y = dram_col x' y'"
  shows "x = x' \<and> y = y'"
proof -
  let ?i = "unat y * 320 + unat x" and ?j = "unat y' * 320 + unat x'"
  have b: "unat x < 320" "unat x' < 320"
    using assms(1,3) by (simp_all add: FRAMEBUFFER_WIDTH_def H_VISIBLE_def word_less_nat_alt)
  have "?i div 512 = ?j div 512" "?i mod 512 = ?j mod 512"
    using assms(5,6) unat_dram_row [OF assms(1,2)] unat_dram_row [OF assms(3,4)]
      unat_dram_col [OF assms(1,2)] unat_dram_col [OF assms(3,4)] by simp_all
  then have e: "?i = ?j"
    by (metis div_mult_mod_eq)
  have "?i mod 320 = ?j mod 320" "?i div 320 = ?j div 320" using e by simp_all
  then have "unat x = unat x'" "unat y = unat y'" using b by simp_all
  then show ?thesis by (simp add: word_unat_eq_iff)
qed

subsection \<open>Sequences of drawPixel calls\<close>

lemma PixelUpdate_eta: "\<lparr>upd_x = upd_x u, upd_y = upd_y u, upd_color = upd_color u\<rparr> = u"
  by simp

lemma drawPixels_frame:
  "hw (snd (drawPixels us s)) = hw s \<and>
   dram (snd (drawPixels us s)) = dram s \<and>
   update_buffer_read_index (snd (drawPixels us s)) = update_buffer_read_index s \<and>
   cbr_cycles (snd (drawPixels us s)) = cbr_cycles s"
  by (induction us arbitrary: s) (simp_all add: Let_def drawPixel_frame)

lemma drawPixels_all_accepted:
  assumes "ring_inv s"
    and "\<forall>ok \<in> set (fst (drawPixels us s)). ok"
  shows "ring_inv (snd (drawPixels us s)) \<and>
         pending (snd (drawPixels us s)) = pending s @ us \<and>
         (\<forall>u \<in> set us. in_bounds u)"
  using assms
proof (induction us arbitrary: s)
  case Nil
  then show ?case by simp
next
  case (Cons u us)
  let ?s1 = "snd (drawPixel (upd_x u) (upd_y u) (upd_color u) s)"
  from Cons.prems(2) have ok: "fst (drawPixel (upd_x u) (upd_y u) (upd_color u) s)"
    and rest: "\<forall>ok \<in> set (fst (drawPixels us ?s1)). ok"
    by (auto simp: Let_def)
  note one = drawPixel_stored_pending [OF Cons.prems(1) ok]
  from Cons.IH [OF one(1) rest] one(3) ok
  show ?case by (simp add: Let_def drawPixel_accepted_iff in_bounds_def)
qed

subsection \<open>Claims on drawPixel\<close>

lemma ring_inv_power_on: "ring_inv power_on"
  by (simp add: ring_inv_nat power_on_def)

text \<open>
  C10. A request outside the framebuffer (\<open>x \<ge> width\<close> or \<open>y \<ge> height\<close>) makes
  \<open>drawPixel\<close> return \<open>false\<close> and leaves the whole state as it was: both indices, the
  ring contents and the two health flags included.
\<close>

theorem drawPixel_out_of_bounds_unchanged:
  assumes "x \<ge> FRAMEBUFFER_WIDTH \<or> y \<ge> FRAMEBUFFER_HEIGHT"
  shows "drawPixel x y c s = (False, s)"
  using assms by (rule drawPixel_out_of_bounds)

theorem drawPixel_out_of_bounds_unchanged_witness:
  "((320 :: 16 word) \<ge> FRAMEBUFFER_WIDTH \<or> (7 :: 16 word) \<ge> FRAMEBUFFER_HEIGHT) \<and>
   drawPixel 320 7 15 power_on = (False, power_on) \<and>
   ((3 :: 16 word) \<ge> FRAMEBUFFER_WIDTH \<or> (240 :: 16 word) \<ge> FRAMEBUFFER_HEIGHT) \<and>
   drawPixel 3 240 15 (power_on\<lparr>buffer_overflow := True\<rparr>)
     = (False, power_on\<lparr>buffer_overflow := True\<rparr>)"
proof -
  have a: "(320 :: 16 word) \<ge> FRAMEBUFFER_WIDTH \<or> (7 :: 16 word) \<ge> FRAMEBUFFER_HEIGHT"
    by (simp add: FRAMEBUFFER_WIDTH_def H_VISIBLE_def)
  have b: "(3 :: 16 word) \<ge> FRAMEBUFFER_WIDTH \<or> (240 :: 16 word) \<ge> FRAMEBUFFER_HEIGHT"
    by (simp add: FRAMEBUFFER_HEIGHT_def V_VISIBLE_def)
  show ?thesis
    using a b drawPixel_out_of_bounds_unchanged [OF a, of 15 power_on]
      drawPixel_out_of_bounds_unchanged [OF b, of 15 "power_on\<lparr>buffer_overflow := True\<rparr>"]
    by simp
qed

text \<open>
  C2. For a request inside the framebuffer on a well-formed ring: when the next write
  slot is the read index (ring full), \<open>drawPixel\<close> sets \<open>buffer_overflow\<close>, returns
  \<open>false\<close> and leaves both indices and the array as they were (so every unread entry
  is kept); otherwise it stores \<open>{x, y, color}\<close> in the slot at the write index,
  touches no other slot, advances the write index by one modulo the ring size, leaves
  the read index alone and returns \<open>true\<close>.
\<close>

theorem drawPixel_enqueue:
  fixes s :: vga and x y :: "16 word" and c :: "8 word"
  assumes "ring_inv s" and "x < FRAMEBUFFER_WIDTH" and "y < FRAMEBUFFER_HEIGHT"
  defines "s1 \<equiv> snd (drawPixel x y c s)"
  shows "if (update_buffer_write_index s + 1) mod MAX_UPDATE_BUFFER_SIZE
              = update_buffer_read_index s
         then \<not> fst (drawPixel x y c s) \<and> buffer_overflow s1 \<and>
              update_buffer_write_index s1 = update_buffer_write_index s \<and>
              update_buffer_read_index s1 = update_buffer_read_index s \<and>
              update_buffer s1 = update_buffer s \<and>
              pending s1 = pending s
         else fst (drawPixel x y c s) \<and>
              update_buffer s1 ! unat (update_buffer_write_index s)
                = \<lparr>upd_x = x, upd_y = y, upd_color = c\<rparr> \<and>
              (\<forall>i. i \<noteq> unat (update_buffer_write_index s) \<longrightarrow>
                   update_buffer s1 ! i = update_buffer s ! i) \<and>
              update_buffer_write_index s1
                = (update_buffer_write_index s + 1) mod MAX_UPDATE_BUFFER_SIZE \<and>
              update_buffer_read_index s1 = update_buffer_read_index s \<and>
              buffer_overflow s1 = buffer_overflow s \<and>
              pending s1 = pending s @ [\<lparr>upd_x = x, upd_y = y, upd_color = c\<rparr>]"
proof (cases "(update_buffer_write_index s + 1) mod MAX_UPDATE_BUFFER_SIZE
                = update_buffer_read_index s")
  case True
  have "drawPixel x y c s = (False, s\<lparr>buffer_overflow := True\<rparr>)"
    by (rule drawPixel_full [OF assms(2,3) True])
  then show ?thesis using True by (simp add: s1_def pending_def occupancy_def)
next
  case False
  have e: "drawPixel x y c s =
             (True, s\<lparr>update_buffer :=
                        (update_buffer s)[unat (update_buffer_write_index s) :=
                           \<lparr>upd_x = x, upd_y = y, upd_color = c\<rparr>],
                      update_buffer_write_index :=
                        (update_buffer_write_index s + 1) mod MAX_UPDATE_BUFFER_SIZE\<rparr>)"
    by (rule drawPixel_stored [OF assms(2,3) False])
  then have ok: "fst (drawPixel x y c s)" by simp
  have "unat (update_buffer_write_index s) < length (update_buffer s)"
    using assms(1) by (simp add: ring_inv_nat)
  then show ?thesis
    using False e drawPixel_stored_pending(3) [OF assms(1) ok]
    by (simp add: s1_def)
qed


lemma pending_power_on: "pending power_on = []"
  by (simp add: pending_def occupancy_def power_on_def)

theorem drawPixel_enqueue_witness:
  "ring_inv power_on \<and> (10 :: 16 word) < FRAMEBUFFER_WIDTH \<and> (20 :: 16 word) < FRAMEBUFFER_HEIGHT \<and>
   fst (drawPixel 10 20 15 power_on) \<and>
   update_buffer (snd (drawPixel 10 20 15 power_on)) ! 0
     = \<lparr>upd_x = 10, upd_y = 20, upd_color = 15\<rparr> \<and>
   update_buffer_write_index (snd (drawPixel 10 20 15 power_on)) = 1 \<and>
   pending (snd (drawPixel 10 20 15 power_on)) = [\<lparr>upd_x = 10, upd_y = 20, upd_color = 15\<rparr>] \<and>
   ring_inv (power_on\<lparr>update_buffer_write_index := 511\<rparr>) \<and>
   \<not> fst (drawPixel 10 20 15 (power_on\<lparr>update_buffer_write_index := 511\<rparr>)) \<and>
   buffer_overflow (snd (drawPixel 10 20 15 (power_on\<lparr>update_buffer_write_index := 511\<rparr>))) \<and>
   update_buffer_write_index (snd (drawPixel 10 20 15 (power_on\<lparr>update_buffer_write_index := 511\<rparr>)))
     = 511"
proof -
  have x: "(10 :: 16 word) < FRAMEBUFFER_WIDTH" and y: "(20 :: 16 word) < FRAMEBUFFER_HEIGHT"
    by (simp_all add: FRAMEBUFFER_WIDTH_def FRAMEBUFFER_HEIGHT_def H_VISIBLE_def V_VISIBLE_def)
  have full: "ring_inv (power_on\<lparr>update_buffer_write_index := 511\<rparr>)"
    by (simp add: ring_inv_nat power_on_def)
  have w0: "update_buffer_write_index power_on = 0" "update_buffer_read_index power_on = 0"
    by (simp_all add: power_on_def)
  show ?thesis
    using drawPixel_enqueue [OF ring_inv_power_on x y, of 15]
      drawPixel_enqueue [OF full x y, of 15] x y full ring_inv_power_on
    by (simp add: w0 MAX_UPDATE_BUFFER_SIZE_def pending_power_on)
qed

subsection \<open>Claims on the drain\<close>

lemma hw_fold_write_update:
  "hw (fold write_update us s) =
     fold (\<lambda>u. writeDRAM (dram_row (upd_x u) (upd_y u)) (dram_col (upd_x u) (upd_y u))
                           (upd_color u)) us (hw s)"
  by (induction us arbitrary: s) (simp_all add: write_update_def)

lemma aliased_cells:
  "dram_row 0 0 = 0" "dram_col 0 0 = 0" "dram_row 64 0 = 0" "dram_col 64 0 = 64"
  by (simp_all add: dram_row_def dram_col_def pixel_index_def FRAMEBUFFER_WIDTH_def
      H_VISIBLE_def DRAM_COLS_def)

lemma aliased_write_cycles:
  "dram_cells (writeDRAM 0 64 2 (writeDRAM 0 0 1 hw_after_setup)) (0, 64) = 0"
  by code_simp

text \<open>
  C3 on the code. The drain computes a cell of its own for each pixel, but
  \<open>setDRAMAddress\<close> puts only the low six bits of the column and the low three bits of
  the row on the ports, and it does so once, before the row strobe. The pixels (0, 0)
  and (64, 0), whose cells are (0, 0) and (0, 64), drive the ports alike: their write
  cycles are the same function of the hardware state, whatever the chip does with
  them. From power-on, \<open>drawPixel(0, 0, 1)\<close>, \<open>drawPixel(64, 0, 2)\<close> and one
  \<open>applyBufferUpdates()\<close> are all accepted and leave the ring empty, and the cell
  (0, 64) of the pixel (64, 0) still holds 0, not the colour 2 of its last update.
\<close>

theorem drain_misses_cell_of_pixel:
  "write_update \<lparr>upd_x = 64, upd_y = 0, upd_color = c\<rparr> s
     = write_update \<lparr>upd_x = 0, upd_y = 0, upd_color = c\<rparr> s \<and>
   fst (drawPixels aliased_updates power_on) = [True, True] \<and>
   last_color aliased_updates 64 0 = Some 2 \<and>
   dram_row 64 0 = 0 \<and> dram_col 64 0 = 64 \<and>
   (\<exists>s1. applyBufferUpdates (snd (drawPixels aliased_updates power_on)) = Some s1 \<and>
      update_buffer_read_index s1 = update_buffer_write_index s1 \<and>
      dram s1 (0, 64) = 0)"
proof -
  let ?s0 = "snd (drawPixels aliased_updates power_on)"
  let ?s1 = "(fold write_update (pending ?s0) ?s0)
               \<lparr>update_buffer_read_index := update_buffer_write_index ?s0\<rparr>"
  have "writeDRAM (dram_row 64 0) (dram_col 64 0) c (hw s)
          = writeDRAM (dram_row 0 0) (dram_col 0 0) c (hw s)"
    by (subst writeDRAM_low_bits) (simp add: aliased_cells)
  then have same: "write_update \<lparr>upd_x = 64, upd_y = 0, upd_color = c\<rparr> s
     = write_update \<lparr>upd_x = 0, upd_y = 0, upd_color = c\<rparr> s"
    by (simp add: write_update_def)
  have acc: "fst (drawPixels aliased_updates power_on) = [True, True]"
    by (simp add: aliased_updates_def drawPixel_def Let_def power_on_def
        FRAMEBUFFER_WIDTH_def FRAMEBUFFER_HEIGHT_def H_VISIBLE_def V_VISIBLE_def
        MAX_UPDATE_BUFFER_SIZE_def word_le_nat_alt)
  then have "\<forall>ok \<in> set (fst (drawPixels aliased_updates power_on)). ok"
    by simp
  note all = drawPixels_all_accepted [OF ring_inv_power_on this]
  have "pending power_on = []"
    by (simp add: pending_def occupancy_def power_on_def)
  then have p: "pending ?s0 = aliased_updates" using all by simp
  have ret: "applyBufferUpdates ?s0 = Some ?s1"
    using all by (intro applyBufferUpdates_returns) simp
  have empty: "update_buffer_read_index ?s1 = update_buffer_write_index ?s1"
    by (simp add: fold_write_update_frame)
  have "hw ?s0 = hw_after_setup"
    using drawPixels_frame [of aliased_updates power_on] by (simp add: power_on_def)
  then have "hw ?s1 = writeDRAM 0 64 2 (writeDRAM 0 0 1 hw_after_setup)"
    by (simp add: p hw_fold_write_update) (simp add: aliased_updates_def aliased_cells)
  then have cell: "dram ?s1 (0, 64) = 0"
    by (simp add: dram_def aliased_write_cycles)
  have "last_color aliased_updates 64 0 = Some 2"
    by (simp add: aliased_updates_def)
  then show ?thesis
    using same acc aliased_cells(3,4) ret empty cell by blast
qed

subsection \<open>More calls than the ring holds\<close>

lemma drawPixel_rejected_flag:
  assumes "ring_inv s" "x < FRAMEBUFFER_WIDTH" "y < FRAMEBUFFER_HEIGHT" "occupancy s = 511"
  shows "drawPixel x y c s = (False, s\<lparr>buffer_overflow := True\<rparr>)"
  using assms by (intro drawPixel_full) (simp_all add: ring_full_iff)

lemma ring_overflow_state:
  "ring_inv (s\<lparr>buffer_overflow := b\<rparr>) = ring_inv s"
  "occupancy (s\<lparr>buffer_overflow := b\<rparr>) = occupancy s"
  "pending (s\<lparr>buffer_overflow := b\<rparr>) = pending s"
  by (simp_all add: ring_inv_def occupancy_def pending_def)

lemma drawPixel_overflow_flag:
  "fst (drawPixel x y c s) \<Longrightarrow> buffer_overflow (snd (drawPixel x y c s)) = buffer_overflow s"
  by (auto simp: drawPixel_def Let_def split: if_splits)

lemma drawPixels_bounded:
  assumes "ring_inv s" and "\<forall>u \<in> set us. in_bounds u"
  defines "k \<equiv> min (length us) (511 - occupancy s)"
  shows "fst (drawPixels us s) = replicate k True @ replicate (length us - k) False \<and>
         pending (snd (drawPixels us s)) = pending s @ take k us \<and>
         buffer_overflow (snd (drawPixels us s)) = (buffer_overflow s \<or> k < length us) \<and>
         ring_inv (snd (drawPixels us s))"
  using assms(1,2) unfolding k_def
proof (induction us arbitrary: s)
  case Nil
  then show ?case by simp
next
  case (Cons u us)
  let ?r = "drawPixel (upd_x u) (upd_y u) (upd_color u) s"
  have xy: "upd_x u < FRAMEBUFFER_WIDTH" "upd_y u < FRAMEBUFFER_HEIGHT"
    using Cons.prems(2) by (simp_all add: in_bounds_def)
  have rest: "\<forall>u \<in> set us. in_bounds u" using Cons.prems(2) by simp
  show ?case
  proof (cases "occupancy s = 511")
    case True
    have r: "?r = (False, s\<lparr>buffer_overflow := True\<rparr>)"
      by (rule drawPixel_rejected_flag [OF Cons.prems(1) xy True])
    have inv1: "ring_inv (s\<lparr>buffer_overflow := True\<rparr>)"
      using Cons.prems(1) by (simp add: ring_overflow_state)
    from Cons.IH [OF inv1 rest] True
    show ?thesis by (simp add: Let_def r ring_overflow_state)
  next
    case False
    then have lt: "occupancy s < 511" using occupancy_le [of s] by simp
    then have ok: "fst ?r"
      using Cons.prems(1) xy by (simp add: drawPixel_accepted_iff ring_full_iff)
    note one = drawPixel_stored_pending [OF Cons.prems(1) ok]
    have m: "min (Suc (length us)) (511 - occupancy s)
               = Suc (min (length us) (511 - Suc (occupancy s)))"
      using lt by simp
    from Cons.IH [OF one(1) rest] ok
    show ?thesis
      by (simp add: Let_def one(2,3) m drawPixel_overflow_flag)
  qed
qed

text \<open>
  C4 as the code has it. The ring keeps one slot free, so the number of entries it can
  hold is \<open>MAX_UPDATE_BUFFER_SIZE - 1 = 511\<close>. When \<open>drawPixel\<close> is called 511 + k times
  with in-range pixels on an empty ring, the first 511 calls are accepted and exactly
  the last k return \<open>false\<close>; \<open>buffer_overflow\<close> is set as soon as k is positive, and the
  ring then holds the oldest 511 updates in order. So 511 + 5 calls lose exactly 5, and
  \<open>MAX_UPDATE_BUFFER_SIZE + 5 = 517\<close> calls lose 6.
\<close>

theorem drawPixels_beyond_capacity:
  assumes "ring_inv s"
    and "update_buffer_read_index s = update_buffer_write_index s"
    and "\<forall>u \<in> set us. in_bounds u"
    and "length us = (unat MAX_UPDATE_BUFFER_SIZE - 1) + k"
  shows "fst (drawPixels us s)
           = replicate (unat MAX_UPDATE_BUFFER_SIZE - 1) True @ replicate k False \<and>
         length (filter Not (fst (drawPixels us s))) = k \<and>
         (buffer_overflow (snd (drawPixels us s)) \<longleftrightarrow> buffer_overflow s \<or> 0 < k) \<and>
         pending (snd (drawPixels us s)) = take (unat MAX_UPDATE_BUFFER_SIZE - 1) us"
proof -
  have o: "occupancy s = 0" "pending s = []"
    using assms(1,2) by (simp_all add: ring_empty_iff pending_empty)
  have l: "length us = 511 + k" using assms(4) by (simp add: MAX_UPDATE_BUFFER_SIZE_def)
  note b = drawPixels_bounded [OF assms(1,3)]
  have f: "fst (drawPixels us s) = replicate 511 True @ replicate k False"
    using b by (simp add: o l)
  moreover have "length (filter Not (fst (drawPixels us s))) = k"
    by (simp add: f)
  moreover have "buffer_overflow (snd (drawPixels us s)) \<longleftrightarrow> buffer_overflow s \<or> 0 < k"
    using b by (simp add: o l)
  moreover have "pending (snd (drawPixels us s)) = take 511 us"
    using b by (simp add: o l)
  ultimately show ?thesis by (simp add: MAX_UPDATE_BUFFER_SIZE_def)
qed

lemma burst_in_bounds: "\<forall>u \<in> set burst. in_bounds u"
proof
  fix u assume "u \<in> set burst"
  then obtain i where i: "i < 517"
    and u: "u = \<lparr>upd_x = of_nat (i mod 320), upd_y = of_nat (i div 320), upd_color = 1\<rparr>"
    by (auto simp: burst_def)
  have "i mod 320 < 320" by simp
  moreover have "i div 320 < 240" using i by simp
  ultimately have "unat (of_nat (i mod 320) :: 16 word) < 320"
    "unat (of_nat (i div 320) :: 16 word) < 240"
    by (simp_all add: unat_of_nat)
  then show "in_bounds u"
    by (simp add: u in_bounds_def FRAMEBUFFER_WIDTH_def FRAMEBUFFER_HEIGHT_def H_VISIBLE_def
        V_VISIBLE_def word_less_nat_alt)
qed

lemma length_burst: "length burst = 517"
  by (simp add: burst_def)

theorem drawPixels_beyond_capacity_witness:
  "ring_inv power_on \<and>
   update_buffer_read_index power_on = update_buffer_write_index power_on \<and>
   in_bounds \<lparr>upd_x = 0, upd_y = 0, upd_color = 3\<rparr> \<and>
   length (replicate 516 \<lparr>upd_x = 0, upd_y = 0, upd_color = 3\<rparr>)
     = (unat MAX_UPDATE_BUFFER_SIZE - 1) + 5 \<and>
   fst (drawPixels (replicate 516 \<lparr>upd_x = 0, upd_y = 0, upd_color = 3\<rparr>) power_on)
     = replicate 511 True @ replicate 5 False \<and>
   buffer_overflow (snd (drawPixels (replicate 516 \<lparr>upd_x = 0, upd_y = 0, upd_color = 3\<rparr>) power_on)) \<and>
   pending (snd (drawPixels (replicate 516 \<lparr>upd_x = 0, upd_y = 0, upd_color = 3\<rparr>) power_on))
     = replicate 511 \<lparr>upd_x = 0, upd_y = 0, upd_color = 3\<rparr> \<and>
   length (filter Not (fst (drawPixels burst power_on))) = 6"
proof -
  let ?us = "replicate 516 \<lparr>upd_x = 0, upd_y = 0, upd_color = 3\<rparr>"
  have e: "update_buffer_read_index power_on = update_buffer_write_index power_on"
    by (simp add: power_on_def)
  have i: "in_bounds \<lparr>upd_x = 0, upd_y = 0, upd_color = 3\<rparr>"
    by (simp add: in_bounds_def FRAMEBUFFER_WIDTH_def FRAMEBUFFER_HEIGHT_def H_VISIBLE_def
        V_VISIBLE_def)
  then have b: "\<forall>u \<in> set ?us. in_bounds u" by simp
  have l: "length ?us = (unat MAX_UPDATE_BUFFER_SIZE - 1) + 5"
    by (simp add: MAX_UPDATE_BUFFER_SIZE_def)
  have l6: "length burst = (unat MAX_UPDATE_BUFFER_SIZE - 1) + 6"
    by (simp add: length_burst MAX_UPDATE_BUFFER_SIZE_def)
  show ?thesis
    using drawPixels_beyond_capacity [OF ring_inv_power_on e b l]
      drawPixels_beyond_capacity [OF ring_inv_power_on e burst_in_bounds l6]
      e i l ring_inv_power_on
    by (simp add: MAX_UPDATE_BUFFER_SIZE_def)
qed

text \<open>
  C4 as stated fails: a burst of \<open>MAX_UPDATE_BUFFER_SIZE + 5 = 517\<close> in-range updates of
  distinct pixels on the empty ring has 6 calls rejected, not 5, and leaves 511 entries
  in the ring, not 512.
\<close>

theorem burst_drops_six:
  "length burst = unat MAX_UPDATE_BUFFER_SIZE + 5 \<and>
   length (filter Not (fst (drawPixels burst power_on))) = 6 \<and>
   length (pending (snd (drawPixels burst power_on))) = 511"
proof -
  note b = drawPixels_bounded [OF ring_inv_power_on burst_in_bounds]
  have o: "occupancy power_on = 0"
    by (simp add: occupancy_def power_on_def)
  have "fst (drawPixels burst power_on) = replicate 511 True @ replicate 6 False"
    using b by (simp add: o length_burst)
  moreover have "pending (snd (drawPixels burst power_on)) = take 511 burst"
    using b by (simp add: o length_burst pending_power_on)
  ultimately show ?thesis
    by (simp add: length_burst MAX_UPDATE_BUFFER_SIZE_def)
qed

subsection \<open>The ring invariant\<close>

lemma refresh_loop_frame:
  "update_buffer (refresh_loop n s) = update_buffer s \<and>
   update_buffer_write_index (refresh_loop n s) = update_buffer_write_index s \<and>
   update_buffer_read_index (refresh_loop n s) = update_buffer_read_index s \<and>
   dram (refresh_loop n s) = dram s \<and>
   frame_count (refresh_loop n s) = frame_count s \<and>
   cbr_cycles (refresh_loop n s) = cbr_cycles s + n"
  by (induction n arbitrary: s) (simp_all add: cbr_refresh_cycle_def Let_def dram_def)

lemma refreshDRAM_frame:
  "update_buffer (refreshDRAM s) = update_buffer s"
  "update_buffer_write_index (refreshDRAM s) = update_buffer_write_index s"
  "update_buffer_read_index (refreshDRAM s) = update_buffer_read_index s"
  "dram (refreshDRAM s) = dram s"
  "frame_count (refreshDRAM s) = frame_count s"
  "cbr_cycles (refreshDRAM s) = cbr_cycles s + unat DRAM_ROWS"
  by (simp_all add: refreshDRAM_def refresh_loop_frame)

lemma hsync_isr_ring:
  "update_buffer (hsync_isr t i s) = update_buffer s"
  "update_buffer_write_index (hsync_isr t i s) = update_buffer_write_index s"
  "update_buffer_read_index (hsync_isr t i s) = update_buffer_read_index s"
  by (simp_all add: hsync_isr_def Let_def transferRowToSAM_def)

lemma ring_inv_cong:
  assumes "update_buffer t = update_buffer s"
    and "update_buffer_write_index t = update_buffer_write_index s"
    and "update_buffer_read_index t = update_buffer_read_index s"
  shows "ring_inv t = ring_inv s" "occupancy t = occupancy s" "pending t = pending s"
  using assms by (simp_all add: ring_inv_def occupancy_def pending_def)

lemma applyBufferUpdates_ring_inv:
  assumes "ring_inv s"
  shows "\<exists>s1. applyBufferUpdates s = Some s1 \<and> ring_inv s1 \<and>
           update_buffer s1 = update_buffer s \<and>
           update_buffer_write_index s1 = update_buffer_write_index s \<and>
           update_buffer_read_index s1 = update_buffer_write_index s \<and>
           dram s1 = dram (fold write_update (pending s) s) \<and>
           cbr_cycles s1 = cbr_cycles s \<and> frame_count s1 = frame_count s"
proof -
  let ?s1 = "(fold write_update (pending s) s)
               \<lparr>update_buffer_read_index := update_buffer_write_index s\<rparr>"
  have "applyBufferUpdates s = Some ?s1"
    by (rule applyBufferUpdates_returns [OF assms])
  moreover have "ring_inv ?s1"
    using assms by (simp add: ring_inv_def fold_write_update_frame)
  ultimately show ?thesis by (simp add: fold_write_update_frame)
qed

lemma hw_fold_cong:
  "hw t = hw s \<Longrightarrow> hw (fold write_update us t) = hw (fold write_update us s)"
  by (induction us arbitrary: s t) (simp_all add: write_update_def)

lemma vsync_isr_returns:
  assumes "ring_inv s"
  shows "\<exists>s1. vsync_isr s = Some s1 \<and> ring_inv s1 \<and>
           update_buffer s1 = update_buffer s \<and>
           update_buffer_write_index s1 = update_buffer_write_index s \<and>
           update_buffer_read_index s1 = update_buffer_write_index s \<and>
           dram s1 = dram (fold write_update (pending s) s) \<and>
           frame_count s1 = frame_count s + 1 \<and>
           cbr_cycles s1 = cbr_cycles s +
             (if (frame_count s + 1) AND 0x3F = 0 then unat DRAM_ROWS else 0)"
proof -
  define s0 where "s0 = s\<lparr>frame_count := frame_count s + 1, vblank_active := True\<rparr>"
  have s0: "update_buffer s0 = update_buffer s"
    "update_buffer_write_index s0 = update_buffer_write_index s"
    "update_buffer_read_index s0 = update_buffer_read_index s"
    "hw s0 = hw s" "cbr_cycles s0 = cbr_cycles s" "frame_count s0 = frame_count s + 1"
    by (simp_all add: s0_def)
  have r: "ring_inv s0" "pending s0 = pending s"
    using assms ring_inv_cong [OF s0(1,2,3)] by simp_all
  define s1 where "s1 = (fold write_update (pending s0) s0)
                          \<lparr>update_buffer_read_index := update_buffer_write_index s0\<rparr>"
  have a: "applyBufferUpdates s0 = Some s1"
    unfolding s1_def by (rule applyBufferUpdates_returns [OF r(1)])
  have f: "update_buffer s1 = update_buffer s"
    "update_buffer_write_index s1 = update_buffer_write_index s"
    "update_buffer_read_index s1 = update_buffer_write_index s"
    "cbr_cycles s1 = cbr_cycles s" "frame_count s1 = frame_count s + 1"
    by (simp_all add: s1_def fold_write_update_frame s0)
  have d: "dram s1 = dram (fold write_update (pending s) s)"
    using hw_fold_cong [OF s0(4)] by (simp add: s1_def r(2) dram_def)
  define s2 where "s2 = (if frame_count s1 AND 0x3F = 0 then refreshDRAM s1 else s1)"
  define s3 where
    "s3 = s2\<lparr>current_scanline := 0, current_video_line := 0, vblank_active := False\<rparr>"
  have v: "vsync_isr s = Some s3"
    by (simp add: vsync_isr_def a Let_def s0_def [symmetric] s2_def s3_def)
  have g2: "update_buffer s2 = update_buffer s1"
    "update_buffer_write_index s2 = update_buffer_write_index s1"
    "update_buffer_read_index s2 = update_buffer_read_index s1"
    "dram s2 = dram s1" "frame_count s2 = frame_count s1"
    "cbr_cycles s2 = cbr_cycles s1 + (if frame_count s1 AND 0x3F = 0 then unat DRAM_ROWS else 0)"
    by (simp_all add: s2_def refreshDRAM_frame)
  have g: "update_buffer s3 = update_buffer s"
    "update_buffer_write_index s3 = update_buffer_write_index s"
    "update_buffer_read_index s3 = update_buffer_write_index s"
    "dram s3 = dram (fold write_update (pending s) s)" "frame_count s3 = frame_count s + 1"
    "cbr_cycles s3 = cbr_cycles s + (if (frame_count s + 1) AND 0x3F = 0 then unat DRAM_ROWS else 0)"
    by (simp_all add: s3_def g2 f d)
  have "ring_inv s3"
    using assms by (simp add: ring_inv_def g)
  then show ?thesis
    using v g by blast
qed

lemma reachable_ring_inv: "reachable s \<Longrightarrow> ring_inv s"
proof (induction rule: reachable.induct)
  case (start s)
  then show ?case
    by (simp add: ring_inv_def power_on_def MAX_UPDATE_BUFFER_SIZE_def)
next
  case (draw s x y c)
  from draw.IH show ?case by (rule drawPixel_ring_inv)
next
  case (drain s s1)
  from applyBufferUpdates_ring_inv [OF drain.IH] drain.hyps(2)
  show ?case by auto
next
  case (line s TCNT1 ICR1)
  then show ?case by (simp add: ring_inv_def hsync_isr_ring)
next
  case (frame s s1)
  from vsync_isr_returns [OF frame.IH] frame.hyps(2)
  show ?case by auto
qed

section \<open>Properties of the 256x256 framebuffer sketch\<close>

declare applyBufferToDRAM_loop.simps [simp del]

lemma dram_fp6_frame [simp]:
  "dram_fp6 (s\<lparr>update_buffer_fp6 := a\<rparr>) = dram_fp6 s"
  "dram_fp6 (s\<lparr>update_buffer_index := b\<rparr>) = dram_fp6 s"
  "dram_fp6 (s\<lparr>vBlank_in_progress := c\<rparr>) = dram_fp6 s"
  "dram_fp6 (s\<lparr>currentScanline := d\<rparr>) = dram_fp6 s"
  "dram_fp6 (s\<lparr>currentRow := e\<rparr>) = dram_fp6 s"
  "dram_fp6 (s\<lparr>cbr_cycles_fp6 := f\<rparr>) = dram_fp6 s"
  by (simp_all add: dram_fp6_def)

lemma write_update_fp6_frame:
  "update_buffer_fp6 (write_update_fp6 u s) = update_buffer_fp6 s"
  "update_buffer_index (write_update_fp6 u s) = update_buffer_index s"
  "cbr_cycles_fp6 (write_update_fp6 u s) = cbr_cycles_fp6 s"
  by (simp_all add: write_update_fp6_def)

lemma applyBufferToDRAM_loop_fold:
  "0 \<le> i \<Longrightarrow>
   applyBufferToDRAM_loop i s =
     fold write_update_fp6
       (map (\<lambda>k. update_buffer_fp6 s ! k) [nat i ..< nat (update_buffer_index s)]) s"
proof (induction i s rule: applyBufferToDRAM_loop.induct)
  case (1 i s)
  show ?case
  proof (cases "i < update_buffer_index s")
    case True
    let ?s1 = "write_update_fp6 (update_buffer_fp6 s ! nat i) s"
    have n: "nat i < nat (update_buffer_index s)" "nat (i + 1) = Suc (nat i)"
      using True "1.prems" by simp_all
    have "applyBufferToDRAM_loop i s = applyBufferToDRAM_loop (i + 1) ?s1"
      by (subst applyBufferToDRAM_loop.simps) (simp add: True)
    also have "\<dots> = fold write_update_fp6
        (map (\<lambda>k. update_buffer_fp6 s ! k) [Suc (nat i) ..< nat (update_buffer_index s)]) ?s1"
      using "1.IH" [OF True] "1.prems" by (simp add: write_update_fp6_frame n(2))
    finally show ?thesis
      using n(1) by (simp add: upt_conv_Cons)
  next
    case False
    then have l: "applyBufferToDRAM_loop i s = s"
      by (subst applyBufferToDRAM_loop.simps) simp
    have e: "[nat i ..< nat (update_buffer_index s)] = []"
      using False by simp
    show ?thesis unfolding e l by simp
  qed
qed

lemma applyBufferToDRAM_fold:
  "applyBufferToDRAM s = fold write_update_fp6 (pending_fp6 s) s"
  using applyBufferToDRAM_loop_fold [of 0 s] by (simp add: applyBufferToDRAM_def pending_fp6_def)

lemma fold_write_update_fp6_frame:
  "update_buffer_fp6 (fold write_update_fp6 us s) = update_buffer_fp6 s \<and>
   update_buffer_index (fold write_update_fp6 us s) = update_buffer_index s \<and>
   cbr_cycles_fp6 (fold write_update_fp6 us s) = cbr_cycles_fp6 s"
  by (induction us arbitrary: s) (simp_all add: write_update_fp6_frame)

lemma hw_fp6_fold_cong:
  "hw_fp6 t = hw_fp6 s \<Longrightarrow>
   hw_fp6 (fold write_update_fp6 us t) = hw_fp6 (fold write_update_fp6 us s)"
  by (induction us arbitrary: s t) (simp_all add: write_update_fp6_def)

lemma casBeforeRasRefresh_loop_frame:
  "update_buffer_fp6 (casBeforeRasRefresh_loop n s) = update_buffer_fp6 s \<and>
   update_buffer_index (casBeforeRasRefresh_loop n s) = update_buffer_index s \<and>
   dram_fp6 (casBeforeRasRefresh_loop n s) = dram_fp6 s \<and>
   cbr_cycles_fp6 (casBeforeRasRefresh_loop n s) = cbr_cycles_fp6 s + n"
  by (induction n arbitrary: s) (simp_all add: cbr_refresh_cycle_fp6_def Let_def dram_fp6_def)

lemma vsync_isr_fp6_effect:
  "update_buffer_index (vsync_isr_fp6 s) = 0 \<and>
   dram_fp6 (vsync_isr_fp6 s) = dram_fp6 (fold write_update_fp6 (pending_fp6 s) s) \<and>
   cbr_cycles_fp6 (vsync_isr_fp6 s) = cbr_cycles_fp6 s + nat DRAM_ROWS_fp6"
proof -
  define s0 where "s0 = s\<lparr>vBlank_in_progress := True\<rparr>"
  have p: "pending_fp6 s0 = pending_fp6 s" "hw_fp6 s0 = hw_fp6 s"
    "cbr_cycles_fp6 s0 = cbr_cycles_fp6 s"
    by (simp_all add: s0_def pending_fp6_def)
  define s1 where "s1 = fold write_update_fp6 (pending_fp6 s) s0"
  have a: "applyBufferToDRAM s0 = s1"
    by (simp add: applyBufferToDRAM_fold p s1_def)
  have d: "dram_fp6 s1 = dram_fp6 (fold write_update_fp6 (pending_fp6 s) s)"
    unfolding s1_def dram_fp6_def using hw_fp6_fold_cong [OF p(2)] by simp
  have c: "cbr_cycles_fp6 s1 = cbr_cycles_fp6 s"
    by (simp add: s1_def fold_write_update_fp6_frame p)
  have v: "vsync_isr_fp6 s =
             (casBeforeRasRefresh (s1\<lparr>update_buffer_index := 0\<rparr>))
               \<lparr>currentScanline := 0, currentRow := 0, vBlank_in_progress := False\<rparr>"
    by (simp add: vsync_isr_fp6_def Let_def s0_def [symmetric] a)
  show ?thesis
    by (simp add: v casBeforeRasRefresh_def casBeforeRasRefresh_loop_frame d c)
qed

subsection \<open>The address of a pixel\<close>

lemma uint_pixelIndex:
  assumes "0 \<le> x" "x < FRAMEBUFFER_WIDTH_fp6" "0 \<le> y" "y < FRAMEBUFFER_HEIGHT_fp6"
  shows "uint (pixelIndex x y) = y * FRAMEBUFFER_WIDTH_fp6 + x"
proof -
  define k where "k = y * FRAMEBUFFER_WIDTH_fp6 + x"
  have "k < 2 ^ 16" "0 \<le> k"
    using assms by (simp_all add: k_def FRAMEBUFFER_WIDTH_fp6_def FRAMEBUFFER_HEIGHT_fp6_def)
  then have "take_bit 16 k = k"
    by (simp add: take_bit_int_eq_self)
  moreover have "uint (pixelIndex x y) = take_bit 16 k"
    unfolding pixelIndex_def k_def [symmetric] by (simp add: uint_word_of_int_eq)
  ultimately show ?thesis by (simp add: k_def)
qed

lemma uint_dramRow_dramCol:
  assumes "0 \<le> x" "x < FRAMEBUFFER_WIDTH_fp6" "0 \<le> y" "y < FRAMEBUFFER_HEIGHT_fp6"
  shows "uint (dramRow x y) = (y * FRAMEBUFFER_WIDTH_fp6 + x) div DRAM_COLS_fp6"
    and "uint (dramCol x y) = (y * FRAMEBUFFER_WIDTH_fp6 + x) mod DRAM_COLS_fp6"
  by (simp_all add: dramRow_def dramCol_def uint_div_distrib uint_mod_distrib
      uint_pixelIndex [OF assms] DRAM_COLS_fp6_def)

section \<open>Claims on the handlers, the address mapping and the ring invariant\<close>

text \<open>
  C5 as the code has it. Every execution of the frame handler drains the update queue.
  In the 256x256 sketch every execution also refreshes all \<open>DRAM_ROWS\<close> rows. In the
  320x240 sketch the refresh is guarded: it runs only when the frame counter, after
  its increment, has its low six bits clear, that is on one frame in 64; on the other
  frames the handler issues no refresh cycle.
\<close>

theorem frame_handler_drain_and_refresh:
  assumes "ring_inv s"
  shows "(\<exists>s1. vsync_isr s = Some s1 \<and>
            update_buffer_read_index s1 = update_buffer_write_index s1 \<and>
            dram s1 = dram (fold write_update (pending s) s) \<and>
            cbr_cycles s1 = cbr_cycles s +
              (if (frame_count s + 1) AND 0x3F = 0 then unat DRAM_ROWS else 0)) \<and>
         update_buffer_index (vsync_isr_fp6 t) = 0 \<and>
         dram_fp6 (vsync_isr_fp6 t) = dram_fp6 (fold write_update_fp6 (pending_fp6 t) t) \<and>
         cbr_cycles_fp6 (vsync_isr_fp6 t) = cbr_cycles_fp6 t + nat DRAM_ROWS_fp6"
proof -
  from vsync_isr_returns [OF assms]
  obtain s1 where "vsync_isr s = Some s1"
    "update_buffer_write_index s1 = update_buffer_write_index s"
    "update_buffer_read_index s1 = update_buffer_write_index s"
    "dram s1 = dram (fold write_update (pending s) s)"
    "cbr_cycles s1 = cbr_cycles s +
       (if (frame_count s + 1) AND 0x3F = 0 then unat DRAM_ROWS else 0)"
    by blast
  then have "\<exists>s1. vsync_isr s = Some s1 \<and>
            update_buffer_read_index s1 = update_buffer_write_index s1 \<and>
            dram s1 = dram (fold write_update (pending s) s) \<and>
            cbr_cycles s1 = cbr_cycles s +
              (if (frame_count s + 1) AND 0x3F = 0 then unat DRAM_ROWS else 0)"
    by simp
  then show ?thesis
    using vsync_isr_fp6_effect [of t] by simp
qed

theorem frame_handler_drain_and_refresh_witness:
  "ring_inv (power_on\<lparr>frame_count := 63\<rparr>) \<and>
   (\<exists>s1. vsync_isr (power_on\<lparr>frame_count := 63\<rparr>) = Some s1 \<and>
      update_buffer_read_index s1 = update_buffer_write_index s1 \<and>
      cbr_cycles s1 = 512) \<and>
   update_buffer_index (vsync_isr_fp6 power_on_fp6) = 0 \<and>
   cbr_cycles_fp6 (vsync_isr_fp6 power_on_fp6) = 512"
proof -
  have i: "ring_inv (power_on\<lparr>frame_count := 63\<rparr>)"
    by (simp add: ring_inv_nat power_on_def)
  have c: "cbr_cycles (power_on\<lparr>frame_count := 63\<rparr>) = 0"
    "frame_count (power_on\<lparr>frame_count := 63\<rparr>) = 63"
    "cbr_cycles_fp6 power_on_fp6 = 0"
    by (simp_all add: power_on_def power_on_fp6_def)
  show ?thesis
    using frame_handler_drain_and_refresh [OF i, of power_on_fp6] i
    by (auto simp: c DRAM_ROWS_def DRAM_ROWS_fp6_def)
qed

text \<open>
  C5 as stated fails on the 320x240 sketch: the first execution of the frame handler
  after power-on (frame counter 0, incremented to 1) returns without a single refresh
  cycle.
\<close>

theorem first_frame_without_refresh:
  "map_option cbr_cycles (vsync_isr power_on) = Some (cbr_cycles power_on) \<and>
   map_option frame_count (vsync_isr power_on) = Some 1"
proof -
  from vsync_isr_returns [OF ring_inv_power_on]
  obtain s1 where "vsync_isr power_on = Some s1"
    "frame_count s1 = frame_count power_on + 1"
    "cbr_cycles s1 = cbr_cycles power_on +
       (if (frame_count power_on + 1) AND 0x3F = 0 then unat DRAM_ROWS else 0)"
    by blast
  then show ?thesis by (simp add: power_on_def)
qed


text \<open>
  C7. For a pixel inside the framebuffer the drain computes
  \<open>linear_index = y * width + x\<close> without overflow or truncation, the row as
  \<open>linear_index div dram_cols\<close> and the column as \<open>linear_index mod dram_cols\<close>, and
  this row and this column are the arguments of its write cycle. The address is a
  function of (x, y) alone, so the same pixel always yields the same row and column.
  This holds for the 320x240 sketch (first part) and for the 256x256 sketch (second
  part).
\<close>

theorem pixel_address_mapping:
  assumes "x < FRAMEBUFFER_WIDTH" and "y < FRAMEBUFFER_HEIGHT"
    and "0 \<le> a" and "a < FRAMEBUFFER_WIDTH_fp6" and "0 \<le> b" and "b < FRAMEBUFFER_HEIGHT_fp6"
  shows "unat (pixel_index x y) = unat y * unat FRAMEBUFFER_WIDTH + unat x \<and>
         unat (dram_row x y) = unat (pixel_index x y) div unat DRAM_COLS \<and>
         unat (dram_col x y) = unat (pixel_index x y) mod unat DRAM_COLS \<and>
         (update_buffer s ! unat (update_buffer_read_index s)
            = \<lparr>upd_x = x, upd_y = y, upd_color = c\<rparr> \<longrightarrow>
          apply_update s =
            s\<lparr>hw := writeDRAM (dram_row x y) (dram_col x y) c (hw s),
              update_buffer_read_index :=
                (update_buffer_read_index s + 1) mod MAX_UPDATE_BUFFER_SIZE\<rparr>) \<and>
         uint (pixelIndex a b) = b * FRAMEBUFFER_WIDTH_fp6 + a \<and>
         uint (dramRow a b) = uint (pixelIndex a b) div DRAM_COLS_fp6 \<and>
         uint (dramCol a b) = uint (pixelIndex a b) mod DRAM_COLS_fp6 \<and>
         write_update_fp6 \<lparr>x_fp6 = a, y_fp6 = b, color_fp6 = c\<rparr> t
           = t\<lparr>hw_fp6 := writeDram_fp6 (dramRow a b) (dramCol a b) c (hw_fp6 t)\<rparr>"
proof -
  have "unat (pixel_index x y) = unat y * unat FRAMEBUFFER_WIDTH + unat x"
    by (simp add: unat_pixel_index [OF assms(1,2)] FRAMEBUFFER_WIDTH_def H_VISIBLE_def)
  moreover have "unat (dram_row x y) = unat (pixel_index x y) div unat DRAM_COLS"
    "unat (dram_col x y) = unat (pixel_index x y) mod unat DRAM_COLS"
    by (simp_all add: unat_dram_row [OF assms(1,2)] unat_dram_col [OF assms(1,2)]
        unat_pixel_index [OF assms(1,2)] DRAM_COLS_def)
  moreover have "update_buffer s ! unat (update_buffer_read_index s)
            = \<lparr>upd_x = x, upd_y = y, upd_color = c\<rparr> \<longrightarrow>
          apply_update s =
            s\<lparr>hw := writeDRAM (dram_row x y) (dram_col x y) c (hw s),
              update_buffer_read_index :=
                (update_buffer_read_index s + 1) mod MAX_UPDATE_BUFFER_SIZE\<rparr>"
    by (simp add: apply_update_def write_update_def)
  moreover have "uint (pixelIndex a b) = b * FRAMEBUFFER_WIDTH_fp6 + a"
    by (rule uint_pixelIndex [OF assms(3-6)])
  moreover have "uint (dramRow a b) = uint (pixelIndex a b) div DRAM_COLS_fp6"
    "uint (dramCol a b) = uint (pixelIndex a b) mod DRAM_COLS_fp6"
    by (simp_all add: uint_dramRow_dramCol [OF assms(3-6)] uint_pixelIndex [OF assms(3-6)])
  moreover have "write_update_fp6 \<lparr>x_fp6 = a, y_fp6 = b, color_fp6 = c\<rparr> t
           = t\<lparr>hw_fp6 := writeDram_fp6 (dramRow a b) (dramCol a b) c (hw_fp6 t)\<rparr>"
    by (simp add: write_update_fp6_def)
  ultimately show ?thesis by blast
qed

theorem pixel_address_mapping_witness:
  "(319 :: 16 word) < FRAMEBUFFER_WIDTH \<and> (239 :: 16 word) < FRAMEBUFFER_HEIGHT \<and>
   (0 :: int) \<le> 255 \<and> 255 < FRAMEBUFFER_WIDTH_fp6 \<and> (0 :: int) \<le> 200 \<and> 200 < FRAMEBUFFER_HEIGHT_fp6 \<and>
   unat (pixel_index 319 239) = 76799 \<and>
   unat (dram_row 319 239) = 149 \<and> unat (dram_col 319 239) = 511 \<and>
   uint (pixelIndex 255 200) = 51455 \<and>
   uint (dramRow 255 200) = 100 \<and> uint (dramCol 255 200) = 255"
proof -
  have x: "(319 :: 16 word) < FRAMEBUFFER_WIDTH" and y: "(239 :: 16 word) < FRAMEBUFFER_HEIGHT"
    by (simp_all add: FRAMEBUFFER_WIDTH_def FRAMEBUFFER_HEIGHT_def H_VISIBLE_def V_VISIBLE_def)
  have a: "(0 :: int) \<le> 255" "255 < FRAMEBUFFER_WIDTH_fp6"
    and b: "(0 :: int) \<le> 200" "200 < FRAMEBUFFER_HEIGHT_fp6"
    by (simp_all add: FRAMEBUFFER_WIDTH_fp6_def FRAMEBUFFER_HEIGHT_fp6_def)
  show ?thesis
    using pixel_address_mapping [OF x y a b] x y a b
    by (simp add: FRAMEBUFFER_WIDTH_def H_VISIBLE_def DRAM_COLS_def FRAMEBUFFER_WIDTH_fp6_def
        DRAM_COLS_fp6_def)
qed


subsection \<open>The slot before the read index\<close>

lemma unat_pred_mod_512:
  fixes r :: "16 word"
  assumes "unat r < 512"
  shows "unat ((r - 1) mod 512) = (unat r + 511) mod 512"
  using unat_sub_mod_512 [of r 1] assms by (simp add: add.commute)

lemma slot_before_read_not_written:
  fixes w r :: nat
  assumes "w < 512" "r < 512" "(w + 1) mod 512 \<noteq> r"
  shows "w \<noteq> (r + 511) mod 512"
  using assms by (auto simp: mod_512_if split: if_splits)

lemma drawPixel_keeps_slot_before_read:
  assumes "ring_inv s"
  shows "update_buffer (snd (drawPixel x y c s))
           ! unat ((update_buffer_read_index s - 1) mod MAX_UPDATE_BUFFER_SIZE)
         = update_buffer s ! unat ((update_buffer_read_index s - 1) mod MAX_UPDATE_BUFFER_SIZE)"
proof (cases "fst (drawPixel x y c s)")
  case False
  then show ?thesis by (simp add: drawPixel_rejected_ring)
next
  case True
  let ?w = "unat (update_buffer_write_index s)" and ?r = "unat (update_buffer_read_index s)"
  have b: "?w < 512" "?r < 512" using assms by (simp_all add: ring_inv_nat)
  from True have xy: "x < FRAMEBUFFER_WIDTH" "y < FRAMEBUFFER_HEIGHT"
    and nf: "(update_buffer_write_index s + 1) mod MAX_UPDATE_BUFFER_SIZE
               \<noteq> update_buffer_read_index s"
    by (simp_all add: drawPixel_accepted_iff)
  from nf have "(?w + 1) mod 512 \<noteq> ?r"
    by (simp add: word_unat_eq_iff MAX_UPDATE_BUFFER_SIZE_def unat_next_index)
  then have "?w \<noteq> (?r + 511) mod 512"
    by (rule slot_before_read_not_written [OF b])
  then show ?thesis
    by (simp add: drawPixel_stored [OF xy nf] MAX_UPDATE_BUFFER_SIZE_def unat_pred_mod_512 [OF b(2)])
qed

text \<open>
  C9. In every reachable state both indices are below \<open>MAX_UPDATE_BUFFER_SIZE\<close> and the
  number of unread entries, \<open>(write_index - read_index) mod MAX_UPDATE_BUFFER_SIZE\<close>, is
  at most \<open>MAX_UPDATE_BUFFER_SIZE - 1\<close>. A call of \<open>drawPixel\<close> keeps this, reports
  the ring full exactly when it holds \<open>MAX_UPDATE_BUFFER_SIZE - 1\<close> entries, and never
  writes the slot before the read index, so a full ring holds one entry fewer than the
  array has slots; the drain returns, keeps the invariant and leaves no unread entry.
\<close>

theorem ring_occupancy_invariant:
  assumes "reachable s"
  shows "update_buffer_write_index s < MAX_UPDATE_BUFFER_SIZE \<and>
         update_buffer_read_index s < MAX_UPDATE_BUFFER_SIZE \<and>
         length (update_buffer s) = unat MAX_UPDATE_BUFFER_SIZE \<and>
         occupancy s \<le> unat MAX_UPDATE_BUFFER_SIZE - 1 \<and>
         length (pending s) = occupancy s \<and>
         ring_inv (snd (drawPixel x y c s)) \<and>
         occupancy (snd (drawPixel x y c s)) \<le> unat MAX_UPDATE_BUFFER_SIZE - 1 \<and>
         (fst (drawPixel x y c s) \<longrightarrow> occupancy s < unat MAX_UPDATE_BUFFER_SIZE - 1) \<and>
         (x < FRAMEBUFFER_WIDTH \<and> y < FRAMEBUFFER_HEIGHT \<longrightarrow>
            (\<not> fst (drawPixel x y c s) \<longleftrightarrow> occupancy s = unat MAX_UPDATE_BUFFER_SIZE - 1)) \<and>
         update_buffer (snd (drawPixel x y c s))
           ! unat ((update_buffer_read_index s - 1) mod MAX_UPDATE_BUFFER_SIZE)
         = update_buffer s ! unat ((update_buffer_read_index s - 1) mod MAX_UPDATE_BUFFER_SIZE) \<and>
         (\<exists>s1. applyBufferUpdates s = Some s1 \<and> ring_inv s1 \<and> occupancy s1 = 0)"
proof -
  have inv: "ring_inv s" using assms by (rule reachable_ring_inv)
  have "update_buffer_write_index s < MAX_UPDATE_BUFFER_SIZE"
    "update_buffer_read_index s < MAX_UPDATE_BUFFER_SIZE"
    "length (update_buffer s) = unat MAX_UPDATE_BUFFER_SIZE"
    using inv by (simp_all add: ring_inv_def)
  moreover have "occupancy s \<le> unat MAX_UPDATE_BUFFER_SIZE - 1"
    "occupancy (snd (drawPixel x y c s)) \<le> unat MAX_UPDATE_BUFFER_SIZE - 1"
    using occupancy_le by (simp_all add: MAX_UPDATE_BUFFER_SIZE_def)
  moreover have "length (pending s) = occupancy s"
    by (rule length_pending)
  moreover have "ring_inv (snd (drawPixel x y c s))"
    using inv by (rule drawPixel_ring_inv)
  moreover have "fst (drawPixel x y c s) \<longrightarrow> occupancy s < unat MAX_UPDATE_BUFFER_SIZE - 1"
    using occupancy_le [of s] ring_full_iff [OF inv]
    by (auto simp: drawPixel_accepted_iff MAX_UPDATE_BUFFER_SIZE_def)
  moreover have "x < FRAMEBUFFER_WIDTH \<and> y < FRAMEBUFFER_HEIGHT \<longrightarrow>
            (\<not> fst (drawPixel x y c s) \<longleftrightarrow> occupancy s = unat MAX_UPDATE_BUFFER_SIZE - 1)"
    using ring_full_iff [OF inv]
    by (simp add: drawPixel_accepted_iff MAX_UPDATE_BUFFER_SIZE_def)
  moreover note drawPixel_keeps_slot_before_read [OF inv, of x y c]
  moreover have "\<exists>s1. applyBufferUpdates s = Some s1 \<and> ring_inv s1 \<and> occupancy s1 = 0"
  proof -
    from applyBufferUpdates_ring_inv [OF inv]
    obtain s1 where s1: "applyBufferUpdates s = Some s1" "ring_inv s1"
      "update_buffer_write_index s1 = update_buffer_write_index s"
      "update_buffer_read_index s1 = update_buffer_write_index s"
      by blast
    then have "occupancy s1 = 0" using ring_empty_iff [OF s1(2)] by simp
    then show ?thesis using s1 by blast
  qed
  ultimately show ?thesis by blast
qed

theorem ring_occupancy_invariant_witness:
  "reachable (snd (drawPixel 10 20 15 power_on)) \<and>
   update_buffer_write_index (snd (drawPixel 10 20 15 power_on)) < MAX_UPDATE_BUFFER_SIZE \<and>
   occupancy (snd (drawPixel 10 20 15 power_on)) \<le> unat MAX_UPDATE_BUFFER_SIZE - 1 \<and>
   ring_inv (snd (drawPixel 11 20 15 (snd (drawPixel 10 20 15 power_on)))) \<and>
   (\<exists>s1. applyBufferUpdates (snd (drawPixel 10 20 15 power_on)) = Some s1 \<and> ring_inv s1 \<and>
      occupancy s1 = 0)"
proof -
  have "reachable power_on"
    by (rule reachable.start) (simp_all add: power_on_def)
  then have r: "reachable (snd (drawPixel 10 20 15 power_on))"
    by (rule reachable.draw)
  show ?thesis
    using ring_occupancy_invariant [OF r, of 11 20 15] r by simp
qed

subsection \<open>The active lines\<close>

lemma active_line_range: "active_line line \<longleftrightarrow> 25 \<le> line \<and> line < 263"
  by (simp add: active_line_def V_TOTAL_def V_VISIBLE_def V_FRONT_PORCH_def V_SYNC_PULSE_def
      V_BACK_PORCH_def)

lemma count_in_range:
  fixes a b n :: nat
  assumes "a \<le> b" "b \<le> n"
  shows "length (filter (\<lambda>i. a \<le> i \<and> i < b) [0 ..< n]) = b - a"
  using assms(2)
proof (induction n)
  case 0
  then show ?case by simp
next
  case (Suc n)
  show ?case
  proof (cases "b \<le> n")
    case True
    with Suc.IH show ?thesis by simp
  next
    case False
    then have b: "b = Suc n" using Suc.prems by simp
    have "filter (\<lambda>i. a \<le> i \<and> i < b) [0 ..< n] = filter (\<lambda>i. a \<le> i) [0 ..< n]"
      by (rule filter_cong) (simp_all add: b)
    moreover have "length (filter (\<lambda>i. a \<le> i) [0 ..< n]) = n - a"
      by (induction n) (auto simp: Suc_diff_le)
    ultimately show ?thesis using assms(1) by (simp add: b Suc_diff_le)
  qed
qed

lemma active_line_of_nat:
  "i < 265 \<Longrightarrow> active_line (of_nat i) \<longleftrightarrow> 25 \<le> i \<and> i < 263"
  by (simp add: active_line_range word_le_nat_alt word_less_nat_alt unat_of_nat)

lemma active_line_count: "length (filter active_line (map of_nat [0 ..< 265])) = 238"
proof -
  have "filter (active_line \<circ> of_nat) [0 ..< 265] = filter (\<lambda>i. 25 \<le> i \<and> i < 263) [0 ..< 265]"
    by (rule filter_cong) (simp_all add: active_line_of_nat del: upt_rec_numeral)
  then have "length (filter active_line (map of_nat [0 ..< 265]))
               = length (filter (\<lambda>i. 25 \<le> i \<and> i < 263) [0 ..< 265])"
    by (simp add: filter_map del: upt_rec_numeral)
  also have "\<dots> = 263 - 25"
    by (rule count_in_range) simp_all
  finally show ?thesis by simp
qed

text \<open>
  C1 on the 320x240 sketch. The condition of the line handler is true exactly on the
  lines 25 to 262: its upper bound is \<open>V_TOTAL - V_FRONT_PORCH = 263\<close>, not
  \<open>v_blank_lines + V_VISIBLE = 265\<close>. At the lines 263 and 264, which lie in
  \<open>[v_blank_lines, v_blank_lines + V_VISIBLE)\<close> and below \<open>V_TOTAL\<close>, the handler takes
  the blanking branch and streams no row, so only 238 of the 240 framebuffer rows are
  ever streamed.
\<close>

theorem active_line_false_at_263:
  "V_FRONT_PORCH + V_SYNC_PULSE + V_BACK_PORCH = 25 \<and>
   V_FRONT_PORCH + V_SYNC_PULSE + V_BACK_PORCH + V_VISIBLE = 265 \<and> V_TOTAL = 265 \<and>
   active_line 262 \<and> \<not> active_line 263 \<and> \<not> active_line 264 \<and>
   current_video_line (hsync_isr 0 639 (power_on\<lparr>current_scanline := 262, current_video_line := 238\<rparr>))
     = 238 \<and>
   SE (hsync_isr 0 639 (power_on\<lparr>current_scanline := 262, current_video_line := 238\<rparr>)) \<and>
   length (filter active_line (map of_nat [0 ..< unat V_TOTAL])) = 238"
proof -
  have t: "V_TOTAL = 265"
    by (simp add: V_TOTAL_def V_VISIBLE_def V_FRONT_PORCH_def V_SYNC_PULSE_def V_BACK_PORCH_def)
  have "length (filter active_line (map of_nat [0 ..< unat V_TOTAL])) = 238"
    unfolding t using active_line_count by simp
  moreover have "V_FRONT_PORCH + V_SYNC_PULSE + V_BACK_PORCH = 25"
    "V_FRONT_PORCH + V_SYNC_PULSE + V_BACK_PORCH + V_VISIBLE = 265"
    by (simp_all add: V_VISIBLE_def V_FRONT_PORCH_def V_SYNC_PULSE_def V_BACK_PORCH_def)
  moreover have "active_line 262" "\<not> active_line 263" "\<not> active_line 264"
    by (simp_all add: active_line_range)
  moreover have
    "current_video_line (hsync_isr 0 639 (power_on\<lparr>current_scanline := 262, current_video_line := 238\<rparr>))
       = 238"
    "SE (hsync_isr 0 639 (power_on\<lparr>current_scanline := 262, current_video_line := 238\<rparr>))"
    by (simp_all add: hsync_isr_def Let_def active_line_range SE_def SE_BIT_def bit_set_bit_iff)
  ultimately show ?thesis using t by simp
qed

text \<open>
  The sibling handler of the 256x256 sketch has the claimed shape: its condition is true
  exactly on the \<open>FRAMEBUFFER_HEIGHT\<close> lines from 35.
\<close>

lemma active_line_fp6_range:
  "active_line_fp6 line \<longleftrightarrow> 35 \<le> line \<and> line < 35 + FRAMEBUFFER_HEIGHT_fp6"
  by (auto simp: active_line_fp6_def)

section \<open>Properties of the MSM514262 read/write sketch\<close>

subsection \<open>The address and data loops\<close>

lemma digitalWrite_address_frame:
  "data_mode (digitalWrite_address i v s) = data_mode s"
  "data_out (digitalWrite_address i v s) = data_out s"
  "ras (digitalWrite_address i v s) = ras s"
  "cas (digitalWrite_address i v s) = cas s"
  "we (digitalWrite_address i v s) = we s"
  "oe (digitalWrite_address i v s) = oe s"
  "row_latch (digitalWrite_address i v s) = row_latch s"
  "col_latch (digitalWrite_address i v s) = col_latch s"
  "cells (digitalWrite_address i v s) = cells s"
  "floating (digitalWrite_address i v s) = floating s"
  by (simp_all add: digitalWrite_address_def)

lemma pin_value_zero_iff: "drop_bit i w AND 1 = 0 \<longleftrightarrow> \<not> bit w i" for w :: "'a::len word"
  by (simp add: bit_iff_odd_drop_bit and_one_eq even_iff_mod_2_eq_zero)

lemma address_pins_after:
  "bit (address_bus (fold (\<lambda>i. digitalWrite_address i (drop_bit i a AND 0x01)) [0 ..< k] s)) n
     \<longleftrightarrow> (if n < k then n < 9 \<and> bit a n else bit (address_bus s) n)"
proof (induction k)
  case 0
  then show ?case by simp
next
  case (Suc k)
  show ?case
    using Suc.IH
    by (auto simp: digitalWrite_address_def pin_value_zero_iff bit_set_bit_iff bit_unset_bit_iff
        less_Suc_eq dest: bit_imp_le_length)
qed

lemma address_pins_frame:
  "data_mode (fold (\<lambda>i. digitalWrite_address i (f i)) is s) = data_mode s \<and>
   data_out (fold (\<lambda>i. digitalWrite_address i (f i)) is s) = data_out s \<and>
   ras (fold (\<lambda>i. digitalWrite_address i (f i)) is s) = ras s \<and>
   cas (fold (\<lambda>i. digitalWrite_address i (f i)) is s) = cas s \<and>
   we (fold (\<lambda>i. digitalWrite_address i (f i)) is s) = we s \<and>
   oe (fold (\<lambda>i. digitalWrite_address i (f i)) is s) = oe s \<and>
   row_latch (fold (\<lambda>i. digitalWrite_address i (f i)) is s) = row_latch s \<and>
   col_latch (fold (\<lambda>i. digitalWrite_address i (f i)) is s) = col_latch s \<and>
   cells (fold (\<lambda>i. digitalWrite_address i (f i)) is s) = cells s \<and>
   floating (fold (\<lambda>i. digitalWrite_address i (f i)) is s) = floating s"
  by (induction "is" arbitrary: s) (simp_all add: digitalWrite_address_frame)

lemma address_bus_setAddress: "address_bus (setAddress a s) = ucast a"
proof (rule bit_eqI)
  fix n
  show "bit (address_bus (setAddress a s)) n \<longleftrightarrow> bit (ucast a :: 9 word) n"
    using bit_imp_le_length [of "address_bus s" n]
    by (auto simp: setAddress_def ADDRESS_PINS_COUNT_def address_pins_after bit_ucast_iff)
qed

lemma setAddress_frame:
  "data_mode (setAddress a s) = data_mode s"
  "data_out (setAddress a s) = data_out s"
  "ras (setAddress a s) = ras s"
  "cas (setAddress a s) = cas s"
  "we (setAddress a s) = we s"
  "oe (setAddress a s) = oe s"
  "row_latch (setAddress a s) = row_latch s"
  "col_latch (setAddress a s) = col_latch s"
  "cells (setAddress a s) = cells s"
  "floating (setAddress a s) = floating s"
  using address_pins_frame [of "\<lambda>i. drop_bit i a AND 0x01" "[0 ..< ADDRESS_PINS_COUNT]" s]
  by (simp_all add: setAddress_def)


lemma digitalWrite_data_frame:
  "data_mode (digitalWrite_data i v s) = data_mode s"
  "address_bus (digitalWrite_data i v s) = address_bus s"
  "ras (digitalWrite_data i v s) = ras s"
  "cas (digitalWrite_data i v s) = cas s"
  "we (digitalWrite_data i v s) = we s"
  "oe (digitalWrite_data i v s) = oe s"
  "row_latch (digitalWrite_data i v s) = row_latch s"
  "col_latch (digitalWrite_data i v s) = col_latch s"
  "cells (digitalWrite_data i v s) = cells s"
  "floating (digitalWrite_data i v s) = floating s"
  by (simp_all add: digitalWrite_data_def)

lemma data_pins_after:
  "bit (data_out (fold (\<lambda>i. digitalWrite_data i (drop_bit i d AND 0x01)) [0 ..< k] s)) n
     \<longleftrightarrow> (if n < k then n < 4 \<and> bit d n else bit (data_out s) n)"
proof (induction k)
  case 0
  then show ?case by simp
next
  case (Suc k)
  show ?case
    using Suc.IH
    by (auto simp: digitalWrite_data_def pin_value_zero_iff bit_set_bit_iff bit_unset_bit_iff
        less_Suc_eq dest: bit_imp_le_length)
qed

lemma data_pins_frame:
  "data_mode (fold (\<lambda>i. digitalWrite_data i (f i)) is s) = data_mode s \<and>
   address_bus (fold (\<lambda>i. digitalWrite_data i (f i)) is s) = address_bus s \<and>
   ras (fold (\<lambda>i. digitalWrite_data i (f i)) is s) = ras s \<and>
   cas (fold (\<lambda>i. digitalWrite_data i (f i)) is s) = cas s \<and>
   we (fold (\<lambda>i. digitalWrite_data i (f i)) is s) = we s \<and>
   oe (fold (\<lambda>i. digitalWrite_data i (f i)) is s) = oe s \<and>
   row_latch (fold (\<lambda>i. digitalWrite_data i (f i)) is s) = row_latch s \<and>
   col_latch (fold (\<lambda>i. digitalWrite_data i (f i)) is s) = col_latch s \<and>
   cells (fold (\<lambda>i. digitalWrite_data i (f i)) is s) = cells s \<and>
   floating (fold (\<lambda>i. digitalWrite_data i (f i)) is s) = floating s"
  by (induction "is" arbitrary: s) (simp_all add: digitalWrite_data_frame)

lemma data_out_writeDataBus: "data_out (writeDataBus d s) = ucast d"
proof (rule bit_eqI)
  fix n
  show "bit (data_out (writeDataBus d s)) n \<longleftrightarrow> bit (ucast d :: 4 word) n"
    using bit_imp_le_length [of "data_out s" n]
    by (auto simp: writeDataBus_def DATA_PINS_COUNT_def data_pins_after bit_ucast_iff)
qed

lemma writeDataBus_frame:
  "data_mode (writeDataBus d s) = data_mode s"
  "address_bus (writeDataBus d s) = address_bus s"
  "ras (writeDataBus d s) = ras s"
  "cas (writeDataBus d s) = cas s"
  "we (writeDataBus d s) = we s"
  "oe (writeDataBus d s) = oe s"
  "row_latch (writeDataBus d s) = row_latch s"
  "col_latch (writeDataBus d s) = col_latch s"
  "cells (writeDataBus d s) = cells s"
  "floating (writeDataBus d s) = floating s"
  using data_pins_frame [of "\<lambda>i. drop_bit i d AND 0x01" "[0 ..< DATA_PINS_COUNT]" s]
  by (simp_all add: writeDataBus_def)

lemma read_pins_after:
  "bit (fold (\<lambda>i d. if digitalRead_data i s = HIGH then d OR push_bit i 1 else d) [0 ..< k]
          (0 :: 8 word)) n
     \<longleftrightarrow> n < k \<and> n < 8 \<and> bit (data_lines s) n"
proof (induction k)
  case 0
  then show ?case by simp
next
  case (Suc k)
  show ?case
    using Suc.IH
    by (auto simp: digitalRead_data_def bit_or_iff bit_exp_iff less_Suc_eq
        dest: bit_imp_le_length)
qed

lemma readDataBus_eq: "readDataBus s = ucast (data_lines s)"
proof (rule bit_eqI)
  fix n
  show "bit (readDataBus s) n \<longleftrightarrow> bit (ucast (data_lines s) :: 8 word) n"
    using bit_imp_le_length [of "data_lines s" n]
    by (auto simp: readDataBus_def DATA_PINS_COUNT_def read_pins_after bit_ucast_iff)
qed


subsection \<open>The write and read cycles\<close>

lemma writeDram_effect:
  assumes "ras s = HIGH" and "cas s = HIGH"
  shows "cells (writeDram row col d s) = (cells s)((ucast row, ucast col) := ucast d)"
    and "ras (writeDram row col d s) = HIGH" and "cas (writeDram row col d s) = HIGH"
  using assms
  by (simp_all add: writeDram_def Let_def setDataBusMode_def store_cell_def controller_data_def
      setAddress_frame address_bus_setAddress writeDataBus_frame data_out_writeDataBus)

lemma readDram_effect:
  assumes "ras s = HIGH" and "cas s = HIGH"
  shows "fst (readDram row col s) = ucast (cells s (ucast row, ucast col))"
    and "cells (snd (readDram row col s)) = cells s"
    and "ras (snd (readDram row col s)) = HIGH" and "cas (snd (readDram row col s)) = HIGH"
  using assms
  by (simp_all add: readDram_def Let_def setDataBusMode_def readDataBus_eq data_lines_def
      chip_drives_def setAddress_frame address_bus_setAddress)


lemma address_in_range:
  fixes a :: "16 word"
  assumes "a < 512"
  shows "unat (ucast a :: 9 word) = unat a"
proof -
  have "unat a < 2 ^ 9" using assms by (simp add: word_less_nat_alt)
  then show ?thesis
    by (simp add: unsigned_ucast_eq take_bit_nat_eq_self)
qed

text \<open>A value from 0 to 15 is its own low four bits.\<close>

lemma nibble_roundtrip:
  fixes v :: "8 word"
  assumes "v \<le> 15"
  shows "ucast (ucast v :: 4 word) = v"
proof -
  have "unat v < 16" using assms by (simp add: word_le_nat_alt)
  then have "unat (ucast (ucast v :: 4 word) :: 8 word) = unat v"
    by (simp add: unsigned_ucast_eq unsigned_take_bit_eq take_bit_nat_eq_self)
  then show ?thesis by (simp add: word_unat_eq_iff)
qed

text \<open>
  C6. On an idle bus (RAS and CAS high, as \<open>setup()\<close> and every cycle of the sketch
  leave them), for every row and column below 512 and every value from 0 to 15:
  \<open>readDram(row, col)\<close> right after \<open>writeDram(row, col, value)\<close> returns \<open>value\<close>;
  the write stores the value in the cell (row, col) and leaves every other cell of the
  array as it was.
\<close>

theorem write_then_read_roundtrip:
  assumes "ras s = HIGH" and "cas s = HIGH"
    and "row < DRAM_ROWS_msm" and "col < DRAM_COLS_msm" and "v \<le> 15"
  shows "fst (readDram row col (writeDram row col v s)) = v \<and>
         unat (ucast row :: 9 word) = unat row \<and> unat (ucast col :: 9 word) = unat col \<and>
         cells (writeDram row col v s) (ucast row, ucast col) = ucast v \<and>
         unat (cells (writeDram row col v s) (ucast row, ucast col)) = unat v \<and>
         (\<forall>cell. cell \<noteq> (ucast row, ucast col) \<longrightarrow>
            cells (writeDram row col v s) cell = cells s cell)"
proof -
  note w = writeDram_effect [OF assms(1,2), of row col v]
  have "fst (readDram row col (writeDram row col v s)) = v"
    using readDram_effect(1) [OF w(2,3), of row col]
    by (simp add: w(1) nibble_roundtrip [OF assms(5)])
  moreover have "unat (ucast row :: 9 word) = unat row" "unat (ucast col :: 9 word) = unat col"
    using assms(3,4) by (simp_all add: DRAM_ROWS_msm_def DRAM_COLS_msm_def address_in_range)
  moreover have "unat (ucast v :: 4 word) = unat v"
    using assms(5) by (simp add: word_le_nat_alt unsigned_ucast_eq take_bit_nat_eq_self)
  ultimately show ?thesis
    by (simp add: w(1))
qed

theorem write_then_read_roundtrip_witness:
  "ras board_after_setup = HIGH \<and> cas board_after_setup = HIGH \<and>
   (511 :: 16 word) < DRAM_ROWS_msm \<and> (3 :: 16 word) < DRAM_COLS_msm \<and> (10 :: 8 word) \<le> 15 \<and>
   fst (readDram 511 3 (writeDram 511 3 10 board_after_setup)) = 10 \<and>
   cells (writeDram 511 3 10 board_after_setup) (511, 3) = 10 \<and>
   cells (writeDram 511 3 10 board_after_setup) (3, 511) = 0"
proof -
  have i: "ras board_after_setup = HIGH" "cas board_after_setup = HIGH"
    by (simp_all add: board_after_setup_def)
  have r: "(511 :: 16 word) < DRAM_ROWS_msm" "(3 :: 16 word) < DRAM_COLS_msm"
    by (simp_all add: DRAM_ROWS_msm_def DRAM_COLS_msm_def)
  have v: "(10 :: 8 word) \<le> 15" by simp
  have c: "cells board_after_setup (3, 511) = 0"
    by (simp add: board_after_setup_def)
  show ?thesis
    using write_then_read_roundtrip [OF i r v] i r c by simp
qed

section \<open>Properties of the 511000 latency tester\<close>

declare refreshAllRows_loop.simps [simp del]

text \<open>The constants of \<open>setAddress\<close> as bit masks.\<close>

lemma port_masks:
  "(0x03 :: 8 word) = mask 2" "(0xFC :: 8 word) = push_bit 2 (mask 6)"
  "(0xF3 :: 8 word) = NOT (push_bit 2 (mask 2))"
  "(0x03 :: 16 word) = mask 2" "(0xFC :: 16 word) = push_bit 2 (mask 6)"
  "(0x0C :: 16 word) = push_bit 2 (mask 2)" "(0x3FF :: 16 word) = mask 10"
  by (simp_all add: mask_eq_exp_minus_1)

lemma row_on_pins_setAddress_opt:
  "row_on_pins (PORTD_opt (setAddress_opt addr s), PORTB_opt (setAddress_opt addr s))
     = addr AND 0x3FF"
  unfolding row_on_pins_def setAddress_opt_def Let_def port_masks
proof (rule bit_eqI)
  fix n :: nat
  let ?d1 = "PORTD_opt s AND mask 2 OR ucast (push_bit 2 addr AND push_bit 2 (mask 6))"
  let ?s1 = "s\<lparr>PORTD_opt := ?d1\<rparr>"
  let ?d2 = "PORTD_opt ?s1 AND push_bit 2 (mask 6) OR ucast (drop_bit 6 addr AND mask 2)"
  let ?s2 = "?s1\<lparr>PORTD_opt := ?d2\<rparr>"
  let ?s3 = "?s2\<lparr>PORTB_opt := PORTB_opt ?s2 AND NOT (push_bit 2 (mask 2))
                              OR ucast (drop_bit 6 addr AND push_bit 2 (mask 2))\<rparr>"
  consider "n < 6" | "6 \<le> n" "n < 8" | "8 \<le> n" "n < 10" | "10 \<le> n"
    by linarith
  then show "bit (ucast (drop_bit 2 (fst (PORTD_opt ?s3, PORTB_opt ?s3))) OR
               push_bit 6 (ucast (fst (PORTD_opt ?s3, PORTB_opt ?s3) AND mask 2)) OR
               push_bit 8 (ucast (drop_bit 2 (snd (PORTD_opt ?s3, PORTB_opt ?s3)) AND mask 2))
                 :: 16 word) n
             = bit (addr AND mask 10) n"
  proof cases
    case 1
    then show ?thesis by (simp add: bit_simps)
  next
    case 2
    then have "6 + (n - 6) = n" "n - 6 < 2" by simp_all
    with 2 show ?thesis by (simp add: bit_simps)
  next
    case 3
    then have "8 + (n - 8) = n" "n - 8 < 2" "\<not> n < 6" "\<not> n - 6 < 2" "Suc (Suc (n - 2)) = n"
      by simp_all
    with 3 show ?thesis by (simp add: bit_simps) auto
  next
    case 4
    then have "\<not> n < 6" "\<not> n - 6 < 2" "\<not> n - 8 < 2" "\<not> n < 10" by simp_all
    then show ?thesis by (simp add: bit_simps)
  qed
qed


lemma low_byte_row:
  fixes row :: "16 word"
  assumes "row < 256"
  shows "row AND 0x3FF = row"
proof -
  have "row < 2 ^ 10" using assms by (simp add: word_less_nat_alt)
  then have "row AND mask 10 = row" by (rule less_mask_eq)
  then show ?thesis by (simp add: port_masks)
qed

lemma refresh_row_effect:
  "lastRefreshMicros (refresh_row row s) = lastRefreshMicros s"
  "map row_on_pins (ras_strobes (refresh_row row s))
     = map row_on_pins (ras_strobes s) @ [row AND 0x3FF]"
proof -
  show "lastRefreshMicros (refresh_row row s) = lastRefreshMicros s"
    by (simp add: refresh_row_def setAddress_opt_def Let_def)
  have "ras_strobes (refresh_row row s) =
          ras_strobes (setAddress_opt row s)
            @ [(PORTD_opt (setAddress_opt row s), PORTB_opt (setAddress_opt row s))]"
    by (simp add: refresh_row_def Let_def)
  moreover have "ras_strobes (setAddress_opt row s) = ras_strobes s"
    by (simp add: setAddress_opt_def Let_def)
  ultimately show "map row_on_pins (ras_strobes (refresh_row row s))
     = map row_on_pins (ras_strobes s) @ [row AND 0x3FF]"
    by (simp add: row_on_pins_setAddress_opt)
qed

lemma refreshAllRows_loop_effect:
  "lastRefreshMicros (refreshAllRows_loop row s) = lastRefreshMicros s \<and>
   map row_on_pins (ras_strobes (refreshAllRows_loop row s))
     = map row_on_pins (ras_strobes s) @ map of_nat [unat row ..< 256]"
proof (induction row s rule: refreshAllRows_loop.induct)
  case (1 row s)
  show ?case
  proof (cases "row < 256")
    case True
    then have r: "unat row < 256" by (simp add: word_less_nat_alt)
    then have n: "unat (row + 1) = Suc (unat row)"
      by (simp add: unat_word_ariths)
    have u: "[unat row ..< 256] = unat row # [Suc (unat row) ..< 256]"
      using r by (simp add: upt_conv_Cons del: upt_rec_numeral)
    have l: "refreshAllRows_loop row s = refreshAllRows_loop (row + 1) (refresh_row row s)"
      by (subst refreshAllRows_loop.simps) (simp add: True)
    show ?thesis
      unfolding l u using "1.IH" [OF True]
      by (simp add: refresh_row_effect n low_byte_row [OF True] del: upt_rec_numeral)
  next
    case False
    then have "[unat row ..< 256] = []" by (simp add: word_less_nat_alt)
    moreover have "refreshAllRows_loop row s = s"
      by (subst refreshAllRows_loop.simps) (simp add: False)
    ultimately show ?thesis by simp
  qed
qed

lemma refreshAllRows_effect:
  "lastRefreshMicros (refreshAllRows s) = lastRefreshMicros s"
  "map row_on_pins (ras_strobes (refreshAllRows s))
     = map row_on_pins (ras_strobes s) @ map of_nat [0 ..< 256]"
  using refreshAllRows_loop_effect [of 0 s]
  by (simp_all add: refreshAllRows_def del: upt_rec_numeral)

lemma row_swept_iff:
  fixes row :: "16 word"
  shows "row \<in> set (map of_nat [0 ..< 256]) \<longleftrightarrow> row < 256"
proof
  assume "row \<in> set (map of_nat [0 ..< 256])"
  then obtain i :: nat where "i < 256" "row = of_nat i" by (auto simp del: upt_rec_numeral)
  then show "row < 256" by (simp add: word_less_nat_alt unat_of_nat)
next
  assume "row < 256"
  then have "unat row < 256" by (simp add: word_less_nat_alt)
  then have "unat row \<in> {0 ..< 256}" by simp
  then have "(of_nat (unat row) :: 16 word) \<in> of_nat ` {0 ..< 256}" by (rule imageI)
  then show "row \<in> set (map of_nat [0 ..< 256])" by (simp del: upt_rec_numeral)
qed

text \<open>
  C8 on the code. For every value \<open>now\<close>, \<open>refreshIfNeeded\<close> runs \<open>refreshAllRows\<close>
  exactly when \<open>now\<close> minus the recorded time of the last refresh, computed in
  \<open>unsigned long\<close>, is at least \<open>refreshInterval\<close>; it then records \<open>now\<close>, and
  otherwise it leaves the whole state as it was. But the refresh it runs is not one of
  the full array: \<open>refreshAllRows\<close> strobes RAS with the rows 0 to 255 on the address
  pins, each once and in this order, and with no other row, while the test addresses
  the rows 0 to 511 (\<open>row = (addr >> 8) & 0x1FF\<close> for \<open>addr\<close> below \<open>totalAddresses\<close>).
  The row of an address is among the refreshed ones only if it is below 256.
\<close>

theorem refreshIfNeeded_sweeps_256_rows:
  "(now - lastRefreshMicros s \<ge> refreshInterval \<longrightarrow>
      refreshIfNeeded now s = (refreshAllRows s)\<lparr>lastRefreshMicros := now\<rparr> \<and>
      lastRefreshMicros (refreshIfNeeded now s) = now \<and>
      map row_on_pins (ras_strobes (refreshIfNeeded now s))
        = map row_on_pins (ras_strobes s) @ map of_nat [0 ..< 256]) \<and>
   (\<not> now - lastRefreshMicros s \<ge> refreshInterval \<longrightarrow> refreshIfNeeded now s = s) \<and>
   (address_row addr \<in> set (map of_nat [0 ..< 256]) \<longleftrightarrow> address_row addr < 256)"
proof -
  have "now - lastRefreshMicros s \<ge> refreshInterval \<longrightarrow>
      refreshIfNeeded now s = (refreshAllRows s)\<lparr>lastRefreshMicros := now\<rparr> \<and>
      lastRefreshMicros (refreshIfNeeded now s) = now \<and>
      map row_on_pins (ras_strobes (refreshIfNeeded now s))
        = map row_on_pins (ras_strobes s) @ map of_nat [0 ..< 256]"
    by (simp add: refreshIfNeeded_def refreshAllRows_effect del: upt_rec_numeral)
  moreover have "\<not> now - lastRefreshMicros s \<ge> refreshInterval \<longrightarrow> refreshIfNeeded now s = s"
    by (simp add: refreshIfNeeded_def)
  moreover have "address_row addr \<in> set (map of_nat [0 ..< 256]) \<longleftrightarrow> address_row addr < 256"
    by (rule row_swept_iff)
  ultimately show ?thesis by blast
qed

theorem refreshIfNeeded_sweeps_256_rows_witness:
  "(250 :: 32 word) - lastRefreshMicros tester_after_setup \<ge> refreshInterval \<and>
   lastRefreshMicros (refreshIfNeeded 250 tester_after_setup) = 250 \<and>
   map row_on_pins (ras_strobes (refreshIfNeeded 250 tester_after_setup))
     = map of_nat [0 ..< 256] \<and>
   (65536 :: 32 word) < totalAddresses \<and>
   address_row 65536 = 256 \<and>
   address_row 65536
     \<notin> set (map row_on_pins (ras_strobes (refreshIfNeeded 250 tester_after_setup))) \<and>
   \<not> (249 :: 32 word) - lastRefreshMicros tester_after_setup \<ge> refreshInterval \<and>
   refreshIfNeeded 249 tester_after_setup = tester_after_setup"
proof -
  have d: "(250 :: 32 word) - lastRefreshMicros tester_after_setup \<ge> refreshInterval"
    "\<not> (249 :: 32 word) - lastRefreshMicros tester_after_setup \<ge> refreshInterval"
    by (simp_all add: tester_after_setup_def refreshInterval_def)
  have l: "ras_strobes tester_after_setup = []"
    by (simp add: tester_after_setup_def)
  have a: "(65536 :: 32 word) < totalAddresses" "address_row 65536 = 256"
    by (simp_all add: totalAddresses_def address_row_def)
  have n: "\<not> address_row 65536 < 256"
    by (simp add: a)
  note due = refreshIfNeeded_sweeps_256_rows [of 250 tester_after_setup 65536]
  from due d(1) have t: "lastRefreshMicros (refreshIfNeeded 250 tester_after_setup) = 250"
    by blast
  from due d(1) have "map row_on_pins (ras_strobes (refreshIfNeeded 250 tester_after_setup))
       = map row_on_pins (ras_strobes tester_after_setup) @ map of_nat [0 ..< 256]"
    by blast
  then have r: "map row_on_pins (ras_strobes (refreshIfNeeded 250 tester_after_setup))
       = map of_nat [0 ..< 256]"
    unfolding l by simp
  from due n have "address_row 65536 \<notin> set (map of_nat [0 ..< 256] :: 16 word list)"
    by blast
  then have m: "address_row 65536
     \<notin> set (map row_on_pins (ras_strobes (refreshIfNeeded 250 tester_after_setup)))"
    unfolding r .
  from refreshIfNeeded_sweeps_256_rows [of 249 tester_after_setup 0] d(2)
  have e: "refreshIfNeeded 249 tester_after_setup = tester_after_setup"
    by blast
  show ?thesis
    using d a t r m e by blast
qed

end
